theory Spec2Isabelle
  imports Main "HOL-Library.Word" "HOL-Library.Monad_Syntax"
begin

unbundle bit_operations_syntax

section \<open>Machine words and physical memory\<close>

text \<open>
  The kernel targets RV64.  \<open>uint64_t\<close>, \<open>uintptr_t\<close> and all pointers are
  \<open>64 word\<close>; a null pointer is the word \<open>0\<close>.  \<open>uint32_t\<close> and \<open>int\<close> are
  \<open>32 word\<close>.  Memory is a flat, byte-addressed store: the kernel runs identity mapped, so
  the C code dereferences an address as it stands (\<open>virt_to_phys\<close> is a cast).
  A \<open>uint64_t\<close> access is little endian, as on RISC-V.
\<close>

type_synonym u64 = "64 word"
type_synonym u32 = "32 word"
type_synonym u8 = "8 word"
type_synonym memory = "u64 \<Rightarrow> u8"

definition load64 :: "memory \<Rightarrow> u64 \<Rightarrow> u64" where
  "load64 m a =
     ucast (m a) OR push_bit 8 (ucast (m (a + 1))) OR push_bit 16 (ucast (m (a + 2)))
     OR push_bit 24 (ucast (m (a + 3))) OR push_bit 32 (ucast (m (a + 4)))
     OR push_bit 40 (ucast (m (a + 5))) OR push_bit 48 (ucast (m (a + 6)))
     OR push_bit 56 (ucast (m (a + 7)))"

definition store64 :: "memory \<Rightarrow> u64 \<Rightarrow> u64 \<Rightarrow> memory" where
  "store64 m a v =
     m(a := ucast v, a + 1 := ucast (drop_bit 8 v), a + 2 := ucast (drop_bit 16 v),
       a + 3 := ucast (drop_bit 24 v), a + 4 := ucast (drop_bit 32 v),
       a + 5 := ucast (drop_bit 40 v), a + 6 := ucast (drop_bit 48 v),
       a + 7 := ucast (drop_bit 56 v))"

text \<open>\<open>PAGE_SIZE\<close> comes from \<open>kmem.h\<close>, which is not among the sources; \<open>vmm.h\<close>
  documents it as 4 KiB.\<close>

definition PAGE_SIZE :: u64 where
  "PAGE_SIZE = 4096"

text \<open>\<open>for (i = 0; i < n; ++i) b[i] = 0\<close>: the first \<open>n\<close> bytes from \<open>p\<close>, in
  ascending order.\<close>

primrec zero_bytes :: "nat \<Rightarrow> u64 \<Rightarrow> memory \<Rightarrow> memory" where
  "zero_bytes 0 p m = m"
| "zero_bytes (Suc n) p m = (zero_bytes n p m)(p + of_nat n := 0)"

definition page_zero :: "memory \<Rightarrow> u64 \<Rightarrow> memory" where
  "page_zero m p = zero_bytes (unat PAGE_SIZE) p m"

text \<open>\<open>for (i = 0; i < n; i++) d[i] = s[i]\<close>: a forward byte copy that reads the memory
  as the loop has left it (this is also how \<open>memcpy\<close> of \<open>string.c\<close> is taken).\<close>

primrec copy_bytes :: "nat \<Rightarrow> u64 \<Rightarrow> u64 \<Rightarrow> memory \<Rightarrow> memory" where
  "copy_bytes 0 d s m = m"
| "copy_bytes (Suc n) d s m =
     (let m' = copy_bytes n d s m in m'(d + of_nat n := m' (s + of_nat n)))"

section \<open>The physical page allocator\<close>

record vmm_state =
  mem :: memory
  free_list :: "u64 list"
  kernel_pd :: u64

text \<open>Modelled from the spec: \<open>kalloc\<close> and \<open>kfree\<close> live in \<open>kmem.c\<close>, which is not
  among the sources.  The spec gives a free list of 4 KiB pages: an allocation yields one
  page of it or null when it is exhausted, a release returns the page to it, and there is
  no reference counting.\<close>

definition kalloc :: "vmm_state \<Rightarrow> u64 \<times> vmm_state" where
  "kalloc s = (case free_list s of
                 [] \<Rightarrow> (0, s)
               | p # ps \<Rightarrow> (p, s\<lparr>free_list := ps\<rparr>))"

definition kfree :: "u64 \<Rightarrow> vmm_state \<Rightarrow> vmm_state" where
  "kfree p s = s\<lparr>free_list := p # free_list s\<rparr>"

section \<open>Sv39 page tables (vmm.c)\<close>

definition SV39_VPN0 :: "u64 \<Rightarrow> u64" where
  "SV39_VPN0 va = drop_bit 12 va AND 0x1FF"

definition SV39_VPN1 :: "u64 \<Rightarrow> u64" where
  "SV39_VPN1 va = drop_bit 21 va AND 0x1FF"

definition SV39_VPN2 :: "u64 \<Rightarrow> u64" where
  "SV39_VPN2 va = drop_bit 30 va AND 0x1FF"

definition SV39_PAGE_OFFSET :: "u64 \<Rightarrow> u64" where
  "SV39_PAGE_OFFSET va = va AND 0xFFF"

definition PTE_V :: u64 where "PTE_V = push_bit 0 1"
definition PTE_R :: u64 where "PTE_R = push_bit 1 1"
definition PTE_W :: u64 where "PTE_W = push_bit 2 1"
definition PTE_X :: u64 where "PTE_X = push_bit 3 1"
definition PTE_U :: u64 where "PTE_U = push_bit 4 1"
definition PTE_A :: u64 where "PTE_A = push_bit 6 1"
definition PTE_D :: u64 where "PTE_D = push_bit 7 1"

definition VMM_P_PRESENT :: u32 where "VMM_P_PRESENT = 0x1"
definition VMM_P_RW :: u32 where "VMM_P_RW = 0x2"
definition VMM_P_USER :: u32 where "VMM_P_USER = 0x4"

lemmas pte_bits = PTE_V_def PTE_R_def PTE_W_def PTE_X_def PTE_U_def PTE_A_def PTE_D_def
lemmas vmm_flag_bits = VMM_P_PRESENT_def VMM_P_RW_def VMM_P_USER_def

definition alloc_page_table_page :: "vmm_state \<Rightarrow> u64 \<times> vmm_state" where
  "alloc_page_table_page s =
     (let (p, s1) = kalloc s in
      if p = 0 then (0, s1)
      else (p, s1\<lparr>mem := page_zero (mem s1) p\<rparr>))"

definition make_pte :: "u64 \<Rightarrow> u64 \<Rightarrow> u64" where
  "make_pte paddr flags = push_bit 10 (drop_bit 12 paddr) OR (flags AND 0x3FF)"

definition pte_to_phys :: "u64 \<Rightarrow> u64" where
  "pte_to_phys pte = push_bit 12 (drop_bit 10 pte)"

definition vmm_flags_to_pte_flags :: "u32 \<Rightarrow> u64" where
  "vmm_flags_to_pte_flags flags =
     (let f = 0;
          f = (if flags AND VMM_P_PRESENT \<noteq> 0 then f OR PTE_V else f);
          f = (if flags AND VMM_P_RW \<noteq> 0 then f OR (PTE_R OR PTE_W OR PTE_X) else f);
          f = (if flags AND VMM_P_USER \<noteq> 0 then f OR PTE_U else f)
      in f OR (PTE_A OR PTE_D))"

text \<open>\<open>pt[idx]\<close> on a \<open>vmm_pte_t *\<close> is the 8-byte word at \<open>pt + 8 * idx\<close>.\<close>

definition get_next_level :: "vmm_state \<Rightarrow> u64 \<Rightarrow> u64 \<Rightarrow> bool \<Rightarrow> u64 \<times> vmm_state" where
  "get_next_level s pt idx alloc =
     (let pte = load64 (mem s) (pt + 8 * idx) in
      if pte AND PTE_V = 0 then
        (if \<not> alloc then (0, s)
         else
           (let (page, s1) = alloc_page_table_page s in
            if page = 0 then (0, s1)
            else (page, s1\<lparr>mem := store64 (mem s1) (pt + 8 * idx) (make_pte page PTE_V)\<rparr>)))
      else (pte_to_phys pte, s))"

text \<open>The C functions return \<open>int\<close> 0 or -1; the model returns the same numbers as \<open>int\<close>,
  paired with the state they leave.\<close>

definition vmm_map :: "vmm_state \<Rightarrow> u64 \<Rightarrow> u64 \<Rightarrow> u32 \<Rightarrow> int \<times> vmm_state" where
  "vmm_map s va pa flags =
     (if kernel_pd s = 0 then (-1, s)
      else if va AND (PAGE_SIZE - 1) \<noteq> 0 \<or> pa AND (PAGE_SIZE - 1) \<noteq> 0 then (-1, s)
      else
        (let (l1, s1) = get_next_level s (kernel_pd s) (SV39_VPN2 va) True in
         if l1 = 0 then (-1, s1)
         else
           (let (l0, s2) = get_next_level s1 l1 (SV39_VPN1 va) True in
            if l0 = 0 then (-1, s2)
            else
              (let pte_flags = vmm_flags_to_pte_flags (flags OR VMM_P_PRESENT) in
               (0, s2\<lparr>mem := store64 (mem s2) (l0 + 8 * SV39_VPN0 va)
                                 (make_pte pa pte_flags)\<rparr>)))))"

definition vmm_map_page :: "vmm_state \<Rightarrow> u64 \<Rightarrow> u32 \<Rightarrow> int \<times> vmm_state" where
  "vmm_map_page s va flags =
     (let (phys, s1) = kalloc s in
      if phys = 0 then (-1, s1)
      else
        (let s2 = s1\<lparr>mem := page_zero (mem s1) phys\<rparr>;
             (r, s3) = vmm_map s2 va phys flags
         in if r \<noteq> 0 then (-1, kfree phys s3) else (0, s3)))"

definition vmm_unmap :: "vmm_state \<Rightarrow> u64 \<Rightarrow> u32 \<Rightarrow> int \<times> vmm_state" where
  "vmm_unmap s va free_phys =
     (if kernel_pd s = 0 then (-1, s)
      else if va AND (PAGE_SIZE - 1) \<noteq> 0 then (-1, s)
      else
        (let (l1, s1) = get_next_level s (kernel_pd s) (SV39_VPN2 va) False in
         if l1 = 0 then (-1, s1)
         else
           (let (l0, s2) = get_next_level s1 l1 (SV39_VPN1 va) False in
            if l0 = 0 then (-1, s2)
            else
              (let pte = load64 (mem s2) (l0 + 8 * SV39_VPN0 va) in
               if pte AND PTE_V = 0 then (-1, s2)
               else
                 (let phys_page = pte_to_phys pte;
                      s3 = s2\<lparr>mem := store64 (mem s2) (l0 + 8 * SV39_VPN0 va) 0\<rparr>
                  in (0, if free_phys \<noteq> 0 then kfree phys_page s3 else s3))))))"

definition vmm_translate :: "vmm_state \<Rightarrow> u64 \<Rightarrow> u64" where
  "vmm_translate s va =
     (if kernel_pd s = 0 then 0
      else
        (let (l1, s1) = get_next_level s (kernel_pd s) (SV39_VPN2 va) False in
         if l1 = 0 then 0
         else
           (let (l0, s2) = get_next_level s1 l1 (SV39_VPN1 va) False in
            if l0 = 0 then 0
            else
              (let pte = load64 (mem s2) (l0 + 8 * SV39_VPN0 va) in
               if pte AND PTE_V = 0 then 0
               else pte_to_phys pte OR SV39_PAGE_OFFSET va))))"

section \<open>Processes (proc.c)\<close>

text \<open>
  \<open>proc.h\<close> is not among the sources.  The structures are taken from the fields that
  \<open>proc.c\<close> and \<open>trap.c\<close> use and from the data model of the spec.  \<open>int\<close> is a 32-bit
  word, compared as a signed number where C does.  The C field \<open>next\<close> is called \<open>pnext\<close>
  here; \<open>char name[20]\<close> is a function from the index to the byte.
\<close>

datatype pstate = READY | RUNNING | BLOCKED | TERMINATED

record RegState =
  x1 :: u64
  x5 :: u64
  x6 :: u64
  x7 :: u64
  x10 :: u64
  x11 :: u64
  x12 :: u64
  x13 :: u64
  x14 :: u64
  x15 :: u64
  x16 :: u64
  x17 :: u64
  sp :: u64
  sepc :: u64
  mstatus :: u64

record PCB =
  pid :: u32
  ppid :: u32
  name :: "nat \<Rightarrow> u8"
  pstat :: pstate
  prior :: u32
  entrypoint :: u64
  regstat :: RegState
  stacktop :: u64
  brk_base :: u64
  brk_size :: u64
  pnext :: u64

record procqueue =
  head :: u64
  tail :: u64
  count :: u32

text \<open>
  The kernel's globals.  A \<open>PCB *\<close> is the address of the page \<open>kalloc\<close> gave for it; the
  PCBs are kept as a typed heap \<open>pcbs\<close> beside the byte memory.  \<open>ready_queue\<close> is the pointer
  and \<open>rq\<close> the one \<open>procqueue\<close> it points to.  The \<open>csr_\<close> fields are the machine CSRs.
\<close>

record kstate =
  vm :: vmm_state
  pcbs :: "u64 \<Rightarrow> PCB"
  ready_queue :: u64
  rq :: procqueue
  idle_proc :: u64
  current_proc :: u64
  zombie_list :: u64
  blocked_list :: u64
  next_pid :: u32
  csr_mstatus :: u64
  csr_mepc :: u64
  csr_mcause :: u64
  csr_mtval :: u64

definition HEAP_USER_BASE :: u64 where "HEAP_USER_BASE = 0x80400000"

definition PER_PROC_HEAP :: u64 where "PER_PROC_HEAP = 8 * 1024"

text \<open>riscv.h: \<open>csrs mstatus, 1 << 3\<close> and \<open>csrc mstatus, 1 << 3\<close>.\<close>

definition intr_on :: "kstate \<Rightarrow> kstate" where
  "intr_on s = s\<lparr>csr_mstatus := csr_mstatus s OR push_bit 3 1\<rparr>"

definition intr_off :: "kstate \<Rightarrow> kstate" where
  "intr_off s = s\<lparr>csr_mstatus := csr_mstatus s AND NOT (push_bit 3 1)\<rparr>"

text \<open>\<open>p->field = v\<close> on the typed heap.\<close>

definition pcb_upd :: "u64 \<Rightarrow> (PCB \<Rightarrow> PCB) \<Rightarrow> kstate \<Rightarrow> kstate" where
  "pcb_upd p f s = s\<lparr>pcbs := (pcbs s)(p := f (pcbs s p))\<rparr>"

text \<open>The heap pages of a process: \<open>for (i = 0; i < pages; i++) vmm_unmap(base + i * PAGE_SIZE, 1)\<close>.
  The second argument is the index \<open>i\<close>, the third the number of rounds left.\<close>

primrec unmap_pages :: "u64 \<Rightarrow> u64 \<Rightarrow> nat \<Rightarrow> vmm_state \<Rightarrow> vmm_state" where
  "unmap_pages base i 0 v = v"
| "unmap_pages base i (Suc n) v =
     unmap_pages base (i + 1) n (snd (vmm_unmap v (base + i * PAGE_SIZE) 1))"

text \<open>The stack, the heap pages and the PCB page of \<open>p\<close> go back to the allocator: the body
  of \<open>free_pcb_resources\<close>, which \<open>proc_wait_and_reap\<close> and \<open>zombies_free\<close> repeat inline.\<close>

definition release_pcb :: "u64 \<Rightarrow> kstate \<Rightarrow> kstate" where
  "release_pcb p s =
     (let c = pcbs s p;
          v = kfree (stacktop c - PAGE_SIZE) (vm s);
          v = (if brk_base c \<noteq> 0 \<and> brk_size c > 0
               then unmap_pages (brk_base c) 0
                      (unat ((brk_size c + PAGE_SIZE - 1) div PAGE_SIZE)) v
               else v);
          v = kfree p v
      in s\<lparr>vm := v\<rparr>)"

definition free_pcb_resources :: "u64 \<Rightarrow> kstate \<Rightarrow> kstate" where
  "free_pcb_resources p s = (if p = 0 then s else release_pcb p s)"

definition enqueue :: "u64 \<Rightarrow> kstate \<Rightarrow> kstate" where
  "enqueue p s =
     (if ready_queue s = 0 \<or> p = 0 then s
      else
        (let s = pcb_upd p (\<lambda>c. c\<lparr>pnext := 0\<rparr>) s;
             s = (if tail (rq s) = 0 then s\<lparr>rq := (rq s)\<lparr>head := p, tail := p\<rparr>\<rparr>
                  else (let s = pcb_upd (tail (rq s)) (\<lambda>c. c\<lparr>pnext := p\<rparr>) s
                        in s\<lparr>rq := (rq s)\<lparr>tail := p\<rparr>\<rparr>))
         in s\<lparr>rq := (rq s)\<lparr>count := count (rq s) + 1\<rparr>\<rparr>))"

definition dequeue :: "kstate \<Rightarrow> u64 \<times> kstate" where
  "dequeue s =
     (if ready_queue s = 0 \<or> head (rq s) = 0 then (0, s)
      else
        (let p = head (rq s);
             s = s\<lparr>rq := (rq s)\<lparr>head := pnext (pcbs s p)\<rparr>\<rparr>;
             s = (if head (rq s) = 0 then s\<lparr>rq := (rq s)\<lparr>tail := 0\<rparr>\<rparr> else s);
             s = pcb_upd p (\<lambda>c. c\<lparr>pnext := 0\<rparr>) s;
             s = s\<lparr>rq := (rq s)\<lparr>count := count (rq s) - 1\<rparr>\<rparr>
         in (p, s)))"

section \<open>proc_fork\<close>

text \<open>\<open>memset(child, 0, sizeof(PCB))\<close>.  The enumerator that is 0 is not visible (\<open>proc.h\<close>);
  \<open>pstat\<close> is assigned right after the \<open>memset\<close>.\<close>

definition regs_zero :: RegState where
  "regs_zero = \<lparr>x1 = 0, x5 = 0, x6 = 0, x7 = 0, x10 = 0, x11 = 0, x12 = 0, x13 = 0, x14 = 0,
                 x15 = 0, x16 = 0, x17 = 0, sp = 0, sepc = 0, mstatus = 0\<rparr>"

definition pcb_zero :: PCB where
  "pcb_zero = \<lparr>pid = 0, ppid = 0, name = (\<lambda>_. 0), pstat = READY, prior = 0, entrypoint = 0,
                regstat = regs_zero, stacktop = 0, brk_base = 0, brk_size = 0, pnext = 0\<rparr>"

text \<open>\<open>for (i = 0; i < 19 && parent->name[i]; i++) child->name[i] = parent->name[i]\<close>\<close>

function fork_copy_name :: "nat \<Rightarrow> u64 \<Rightarrow> u64 \<Rightarrow> kstate \<Rightarrow> kstate" where
  "fork_copy_name i parent child s =
     (if i < 19 \<and> name (pcbs s parent) i \<noteq> 0
      then fork_copy_name (Suc i) parent child
             (pcb_upd child (\<lambda>c. c\<lparr>name := (name c)(i := name (pcbs s parent) i)\<rparr>) s)
      else s)"
  by pat_completeness auto

termination
  by (relation "measure (\<lambda>(i, _, _, _). 19 - i)") auto

text \<open>The deep copy of the user heap, lines 288 to 310: \<open>cb\<close> and \<open>pb\<close> are the child's and the
  parent's \<open>brk_base\<close>, \<open>i\<close> the page index, the \<open>nat\<close> the number of rounds left.  A failed
  \<open>vmm_map_page\<close> ends the loop after the roll-back \<open>for (j = 0; j < i; j++) vmm_unmap(.., 1)\<close>;
  the result says whether all pages were mapped.\<close>

primrec fork_heap_pages :: "u64 \<Rightarrow> u64 \<Rightarrow> u64 \<Rightarrow> nat \<Rightarrow> vmm_state \<Rightarrow> bool \<times> vmm_state" where
  "fork_heap_pages cb pb i 0 v = (True, v)"
| "fork_heap_pages cb pb i (Suc n) v =
     (let (r, v1) = vmm_map_page v (cb + i * PAGE_SIZE) (VMM_P_RW OR VMM_P_USER) in
      if r \<noteq> 0 then (False, unmap_pages cb 0 (unat i) v1)
      else fork_heap_pages cb pb (i + 1) n
             (v1\<lparr>mem := copy_bytes (unat PAGE_SIZE) (cb + i * PAGE_SIZE) (pb + i * PAGE_SIZE)
                             (mem v1)\<rparr>))"

text \<open>\<open>proc_fork\<close> in three stretches and the frame that joins them.  Lines 231 to 244: the
  child's PCB is zeroed and filled from the parent's.\<close>

definition fork_init_pcb :: "u64 \<Rightarrow> u64 \<Rightarrow> kstate \<Rightarrow> kstate" where
  "fork_init_pcb parent child s =
     (let s = s\<lparr>pcbs := (pcbs s)(child := pcb_zero)\<rparr>;
          s = pcb_upd child (\<lambda>c. c\<lparr>pid := next_pid s\<rparr>) s;
          s = s\<lparr>next_pid := next_pid s + 1\<rparr>;
          s = pcb_upd child (\<lambda>c. c\<lparr>pstat := READY\<rparr>) s;
          s = pcb_upd child (\<lambda>c. c\<lparr>prior := prior (pcbs s parent)\<rparr>) s;
          s = pcb_upd child (\<lambda>c. c\<lparr>entrypoint := entrypoint (pcbs s parent)\<rparr>) s;
          s = fork_copy_name 0 parent child s;
          s = pcb_upd child (\<lambda>c. c\<lparr>name := (name c)(19 := 0)\<rparr>) s
      in pcb_upd child (\<lambda>c. c\<lparr>regstat := regstat (pcbs s parent)\<rparr>) s)"

text \<open>Lines 253 to 280: the stack page is copied and the child's registers and \<open>ppid\<close> are set.\<close>

definition fork_init_stack :: "u64 \<Rightarrow> u64 \<Rightarrow> u64 \<Rightarrow> u64 \<Rightarrow> kstate \<Rightarrow> kstate" where
  "fork_init_stack mepc parent child stk s =
     (let parent_stk_base = stacktop (pcbs s parent) - PAGE_SIZE;
          s = s\<lparr>vm := (vm s)\<lparr>mem := copy_bytes (unat PAGE_SIZE) stk parent_stk_base
                                         (mem (vm s))\<rparr>\<rparr>;
          s = pcb_upd child (\<lambda>c. c\<lparr>stacktop := stk + PAGE_SIZE\<rparr>) s;
          sp_offset = stacktop (pcbs s parent) - sp (regstat (pcbs s child));
          s = pcb_upd child (\<lambda>c. c\<lparr>regstat := (regstat c)\<lparr>sp := stacktop c - sp_offset\<rparr>\<rparr>) s;
          s = pcb_upd child (\<lambda>c. c\<lparr>regstat := (regstat c)\<lparr>x10 := 0\<rparr>\<rparr>) s;
          s = pcb_upd child (\<lambda>c. c\<lparr>regstat := (regstat c)\<lparr>sepc := mepc + 4\<rparr>\<rparr>) s;
          s = pcb_upd child
                (\<lambda>c. c\<lparr>regstat := (regstat c)\<lparr>mstatus := mstatus (regstat (pcbs s parent))\<rparr>\<rparr>) s
      in pcb_upd child (\<lambda>c. c\<lparr>ppid := pid (pcbs s parent)\<rparr>) s)"

text \<open>Lines 282 to 320: the user heap, the ready queue and the return value.\<close>

definition fork_heap :: "u64 \<Rightarrow> u64 \<Rightarrow> kstate \<Rightarrow> u64 \<times> kstate" where
  "fork_heap parent child s =
     (if brk_base (pcbs s parent) \<noteq> 0 \<and> brk_size (pcbs s parent) > 0 then
        (let s = pcb_upd child
                   (\<lambda>c. c\<lparr>brk_base := HEAP_USER_BASE + scast (pid c) * PER_PROC_HEAP\<rparr>) s;
             s = pcb_upd child (\<lambda>c. c\<lparr>brk_size := brk_size (pcbs s parent)\<rparr>) s;
             pages = (brk_size (pcbs s parent) + PAGE_SIZE - 1) div PAGE_SIZE;
             (ok, v) = fork_heap_pages (brk_base (pcbs s child)) (brk_base (pcbs s parent))
                         0 (unat pages) (vm s)
         in
         if \<not> ok then
           (0, intr_on (s\<lparr>vm := kfree child (kfree (stacktop (pcbs s child) - PAGE_SIZE) v)\<rparr>))
         else (child, intr_on (enqueue child (s\<lparr>vm := v\<rparr>))))
      else
        (let s = pcb_upd child (\<lambda>c. c\<lparr>brk_base := 0\<rparr>) s;
             s = pcb_upd child (\<lambda>c. c\<lparr>brk_size := 0\<rparr>) s
         in (child, intr_on (enqueue child s))))"

definition proc_fork :: "u64 \<Rightarrow> kstate \<Rightarrow> u64 \<times> kstate" where
  "proc_fork mepc s0 =
     (let s = intr_off s0;
          parent = current_proc s
      in
      if parent = 0 then (0, intr_on s)
      else
        (let (child, v) = kalloc (vm s);
             s = s\<lparr>vm := v\<rparr>
         in
         if child = 0 then (0, intr_on s)
         else
           (let s = fork_init_pcb parent child s;
                (stk, v) = kalloc (vm s);
                s = s\<lparr>vm := v\<rparr>
            in
            if stk = 0 then (0, intr_on (s\<lparr>vm := kfree child (vm s)\<rparr>))
            else fork_heap parent child (fork_init_stack mepc parent child stk s))))"

section \<open>Exit, reaping and the scheduler\<close>

text \<open>The \<open>next_pid\<close> heuristic of \<open>proc_wait_and_reap\<close> and \<open>zombies_free\<close>:
  \<open>if (pid == next_pid - 1 && next_pid > 1) next_pid--\<close>.\<close>

definition pid_reuse :: "u32 \<Rightarrow> kstate \<Rightarrow> kstate" where
  "pid_reuse p s =
     (if p = next_pid s - 1 \<and> 1 <s next_pid s then s\<lparr>next_pid := next_pid s - 1\<rparr> else s)"

text \<open>A \<open>while (cur)\<close> over a linked list need not end (the list may be cyclic), so these
  loops are partial: \<open>None\<close> stands for a loop, or a call, that does not return.\<close>

partial_function (option) zombies_free_loop :: "u64 \<Rightarrow> u64 \<Rightarrow> kstate \<Rightarrow> kstate option" where
  "zombies_free_loop prev cur s =
     (if cur = 0 then Some s
      else
        (let nxt = pnext (pcbs s cur) in
         if ppid (pcbs s cur) = 0 then
           (let p = pid (pcbs s cur);
                s = (if prev \<noteq> 0 then pcb_upd prev (\<lambda>c. c\<lparr>pnext := nxt\<rparr>) s
                     else s\<lparr>zombie_list := nxt\<rparr>);
                s = release_pcb cur s;
                s = pid_reuse p s
            in zombies_free_loop prev nxt s)
         else zombies_free_loop cur nxt s))"

definition zombies_free :: "kstate \<Rightarrow> kstate option" where
  "zombies_free s = zombies_free_loop 0 (zombie_list s) s"

text \<open>\<open>switch_context\<close> is assembly and what runs until the caller is switched back in is
  the rest of the system.  It is a parameter \<open>sw old next\<close> (\<open>old = 0\<close> for \<open>boot_ctx\<close>) that
  gives the state in which the caller resumes, or \<open>None\<close> if it never does.

  With nothing ready and \<open>idle_proc\<close> null, \<open>next\<close> is null.  The C then reads \<open>next->pstat\<close>
  (line 705, when \<open>current_proc\<close> is null too) or writes it (lines 716 and 734): a null
  dereference, an access fault on the target.  The call does not return: \<open>None\<close>.\<close>

type_synonym switch = "u64 \<Rightarrow> u64 \<Rightarrow> kstate \<Rightarrow> kstate option"

definition schedule :: "switch \<Rightarrow> kstate \<Rightarrow> kstate option" where
  "schedule sw s0 =
     (let s = intr_off s0;
          (nxt, s) = dequeue s;
          nxt = (if nxt = 0 then
                   (if current_proc s \<noteq> 0 \<and> pstat (pcbs s (current_proc s)) = RUNNING \<and>
                       current_proc s \<noteq> idle_proc s
                    then current_proc s else idle_proc s)
                 else nxt)
      in
      if nxt = 0 then None
      else if nxt = current_proc s \<and> pstat (pcbs s nxt) = RUNNING then
        do { s \<leftarrow> zombies_free s; Some (intr_on s) }
      else
        (let old = current_proc s in
         if old = 0 then
           (let s = pcb_upd nxt (\<lambda>c. c\<lparr>pstat := RUNNING\<rparr>) s;
                s = s\<lparr>current_proc := nxt\<rparr>
            in do { s \<leftarrow> sw 0 nxt s; Some (intr_on s) })
         else
           (let s = (if pstat (pcbs s old) = RUNNING then
                       (let s = pcb_upd old (\<lambda>c. c\<lparr>pstat := READY\<rparr>) s
                        in if old \<noteq> idle_proc s then enqueue old s else s)
                     else s);
                s = pcb_upd nxt (\<lambda>c. c\<lparr>pstat := RUNNING\<rparr>) s;
                s = s\<lparr>current_proc := nxt\<rparr>
            in do { s \<leftarrow> sw old nxt s; s \<leftarrow> zombies_free s; Some (intr_on s) })))"

text \<open>The search of \<open>proc_exit\<close> for the blocked parent, lines 438 to 455.\<close>

partial_function (option) exit_wake_loop :: "u32 \<Rightarrow> u64 \<Rightarrow> u64 \<Rightarrow> kstate \<Rightarrow> kstate option" where
  "exit_wake_loop pp prev cur s =
     (if cur = 0 then Some s
      else if pid (pcbs s cur) = pp then
        (let s = (if prev \<noteq> 0 then pcb_upd prev (\<lambda>c. c\<lparr>pnext := pnext (pcbs s cur)\<rparr>) s
                  else s\<lparr>blocked_list := pnext (pcbs s cur)\<rparr>);
             s = pcb_upd cur (\<lambda>c. c\<lparr>pstat := READY\<rparr>) s
         in Some (enqueue cur s))
      else exit_wake_loop pp cur (pnext (pcbs s cur)) s)"

text \<open>Lines 430 to 432: the caller becomes a zombie.\<close>

definition exit_push_zombie :: "kstate \<Rightarrow> kstate" where
  "exit_push_zombie s =
     (let c = current_proc s;
          s = pcb_upd c (\<lambda>c. c\<lparr>pstat := TERMINATED\<rparr>) s;
          s = pcb_upd c (\<lambda>c. c\<lparr>pnext := zombie_list s\<rparr>) s
      in s\<lparr>zombie_list := c\<rparr>)"

text \<open>\<open>proc_exit\<close> from line 430 up to the call of \<open>schedule\<close>: the state that \<open>schedule\<close> is
  called in.\<close>

definition proc_exit_lists :: "kstate \<Rightarrow> kstate option" where
  "proc_exit_lists s =
     (let s = exit_push_zombie s;
          pp = ppid (pcbs s (current_proc s))
      in if pp \<noteq> 0 then exit_wake_loop pp 0 (blocked_list s) s else Some s)"

text \<open>\<open>proc_exit\<close> returns only through the early \<open>return\<close> of line 428.  Otherwise it
  reaches its call of \<open>schedule\<close>: \<open>Scheduled s r\<close> holds the state \<open>s\<close> in which \<open>schedule()\<close> is
  called and what \<open>schedule\<close> gives, \<open>None\<close> if the caller is never switched back in and
  \<open>Some t\<close> if it is, in the state \<open>t\<close>; after that the function parks in \<open>while (1) wfi\<close>.
  \<open>Hung\<close> is a search of the blocked list that does not end.\<close>

datatype exit_outcome = Returned kstate | Scheduled kstate "kstate option" | Hung

definition proc_exit :: "switch \<Rightarrow> kstate \<Rightarrow> exit_outcome" where
  "proc_exit sw s0 =
     (let s = intr_off s0 in
      if current_proc s = 0 then Returned s
      else (case proc_exit_lists s of
              None \<Rightarrow> Hung
            | Some s \<Rightarrow> Scheduled s (schedule sw s)))"

text \<open>What a caller of \<open>proc_exit\<close> goes on with: the state it returned in, if it returned.\<close>

fun exit_returns :: "exit_outcome \<Rightarrow> kstate option" where
  "exit_returns (Returned s) = Some s"
| "exit_returns (Scheduled s r) = None"
| "exit_returns Hung = None"

text \<open>The scan of \<open>proc_wait_and_reap\<close> over the zombies, lines 371 to 411: \<open>Some (pid, s)\<close>
  when a child was reaped (\<open>intr_on\<close> included), \<open>None\<close> when the list has no child.\<close>

partial_function (option) wait_scan ::
    "u32 \<Rightarrow> u64 \<Rightarrow> u64 \<Rightarrow> kstate \<Rightarrow> (u32 \<times> kstate) option option" where
  "wait_scan mypid prev cur s =
     (if cur = 0 then Some None
      else if ppid (pcbs s cur) = mypid then
        (let s = (if prev \<noteq> 0 then pcb_upd prev (\<lambda>c. c\<lparr>pnext := pnext (pcbs s cur)\<rparr>) s
                  else s\<lparr>zombie_list := pnext (pcbs s cur)\<rparr>);
             childpid = pid (pcbs s cur);
             s = release_pcb cur s;
             s = pid_reuse childpid s
         in Some (Some (childpid, intr_on s)))
      else wait_scan mypid cur (pnext (pcbs s cur)) s)"

partial_function (option) wait_loop :: "switch \<Rightarrow> kstate \<Rightarrow> (u32 \<times> kstate) option" where
  "wait_loop sw s0 =
     do {
       let s = intr_off s0;
       r \<leftarrow> wait_scan (pid (pcbs s (current_proc s))) 0 (zombie_list s) s;
       case r of
         Some res \<Rightarrow> Some res
       | None \<Rightarrow>
           do {
             let s = pcb_upd (current_proc s) (\<lambda>c. c\<lparr>pstat := BLOCKED\<rparr>) s;
             let s = pcb_upd (current_proc s) (\<lambda>c. c\<lparr>pnext := blocked_list s\<rparr>) s;
             let s = s\<lparr>blocked_list := current_proc s\<rparr>;
             s \<leftarrow> schedule sw s;
             wait_loop sw s
           }
     }"

definition proc_wait_and_reap :: "switch \<Rightarrow> kstate \<Rightarrow> (u32 \<times> kstate) option" where
  "proc_wait_and_reap sw s = (if current_proc s = 0 then Some (-1, s) else wait_loop sw s)"

definition proc_suspend_current :: "switch \<Rightarrow> kstate \<Rightarrow> kstate option" where
  "proc_suspend_current sw s0 =
     (let s = intr_off s0 in
      if current_proc s = 0 \<or> current_proc s = idle_proc s then Some (intr_on s)
      else
        do {
          let s = pcb_upd (current_proc s) (\<lambda>c. c\<lparr>pstat := BLOCKED\<rparr>) s;
          let s = pcb_upd (current_proc s) (\<lambda>c. c\<lparr>pnext := blocked_list s\<rparr>) s;
          let s = s\<lparr>blocked_list := current_proc s\<rparr>;
          s \<leftarrow> schedule sw s;
          None
        })"

section \<open>proc_kill\<close>

text \<open>The three searches of \<open>proc_kill\<close>.  Each gives \<open>Some s\<close> with the state after
  \<open>free_pcb_resources\<close> when it found the pid, \<open>None\<close> when it reached the end of its list.\<close>

partial_function (option) kill_ready_loop ::
    "u32 \<Rightarrow> u64 \<Rightarrow> u64 \<Rightarrow> kstate \<Rightarrow> kstate option option" where
  "kill_ready_loop p prev cur s =
     (if cur = 0 then Some None
      else if pid (pcbs s cur) = p then
        (let nxt = pnext (pcbs s cur);
             s = (if prev \<noteq> 0 then pcb_upd prev (\<lambda>c. c\<lparr>pnext := nxt\<rparr>) s
                  else s\<lparr>rq := (rq s)\<lparr>head := nxt\<rparr>\<rparr>);
             s = (if nxt = 0 then s\<lparr>rq := (rq s)\<lparr>tail := prev\<rparr>\<rparr> else s);
             s = s\<lparr>rq := (rq s)\<lparr>count := count (rq s) - 1\<rparr>\<rparr>
         in Some (Some (free_pcb_resources cur s)))
      else kill_ready_loop p cur (pnext (pcbs s cur)) s)"

partial_function (option) kill_blocked_loop ::
    "u32 \<Rightarrow> u64 \<Rightarrow> u64 \<Rightarrow> kstate \<Rightarrow> kstate option option" where
  "kill_blocked_loop p prev cur s =
     (if cur = 0 then Some None
      else if pid (pcbs s cur) = p then
        (let nxt = pnext (pcbs s cur);
             s = (if prev \<noteq> 0 then pcb_upd prev (\<lambda>c. c\<lparr>pnext := nxt\<rparr>) s
                  else s\<lparr>blocked_list := nxt\<rparr>)
         in Some (Some (free_pcb_resources cur s)))
      else kill_blocked_loop p cur (pnext (pcbs s cur)) s)"

partial_function (option) kill_zombie_loop ::
    "u32 \<Rightarrow> u64 \<Rightarrow> u64 \<Rightarrow> kstate \<Rightarrow> kstate option option" where
  "kill_zombie_loop p prev cur s =
     (if cur = 0 then Some None
      else if pid (pcbs s cur) = p then
        (let nxt = pnext (pcbs s cur);
             s = (if prev \<noteq> 0 then pcb_upd prev (\<lambda>c. c\<lparr>pnext := nxt\<rparr>) s
                  else s\<lparr>zombie_list := nxt\<rparr>)
         in Some (Some (free_pcb_resources cur s)))
      else kill_zombie_loop p cur (pnext (pcbs s cur)) s)"

text \<open>The searches in their order.  \<open>not_found\<close> is the common exit
  \<open>intr_on(); return -1\<close>.\<close>

definition proc_kill_search :: "u32 \<Rightarrow> kstate \<Rightarrow> (int \<times> kstate) option" where
  "proc_kill_search p s =
     do {
       r \<leftarrow> (if ready_queue s \<noteq> 0 then kill_ready_loop p 0 (head (rq s)) s else Some None);
       case r of
         Some s' \<Rightarrow> Some (0, intr_on s')
       | None \<Rightarrow>
           do {
             r \<leftarrow> kill_blocked_loop p 0 (blocked_list s) s;
             case r of
               Some s' \<Rightarrow> Some (0, intr_on s')
             | None \<Rightarrow>
                 do {
                   r \<leftarrow> kill_zombie_loop p 0 (zombie_list s) s;
                   case r of
                     Some s' \<Rightarrow> Some (0, intr_on s')
                   | None \<Rightarrow> Some (-1, intr_on s)
                 }
           }
     }"

text \<open>Were \<open>proc_exit\<close> to return, control would fall into the searches, as in the C.\<close>

definition proc_kill :: "switch \<Rightarrow> u32 \<Rightarrow> kstate \<Rightarrow> (int \<times> kstate) option" where
  "proc_kill sw p s0 =
     (let s = intr_off s0 in
      if p <s 0 then Some (-1, intr_on s)
      else if idle_proc s \<noteq> 0 \<and> pid (pcbs s (idle_proc s)) = p then Some (-1, intr_on s)
      else
        do {
          s \<leftarrow> (if current_proc s \<noteq> 0 \<and> pid (pcbs s (current_proc s)) = p
                then exit_returns (proc_exit sw (intr_on s)) else Some s);
          proc_kill_search p s
        })"

section \<open>The trap dispatcher (trap.c)\<close>

text \<open>
  What \<open>trap_handler_c\<close> calls outside the sources is a parameter: \<open>switch_context\<close>; the
  syscall layer (\<open>syscall.h\<close>, \<open>syscall.c\<close>) with the number \<open>SYS_EXEC\<close>, \<open>syscall_dispatch\<close>
  and \<open>sys_exec_lookup\<close>; and the timer (\<open>set_next_timer\<close> writes CLINT registers).  The PLIC
  and block-device calls of an external interrupt are left out: that path ends, like every
  path but an \<open>ecall\<close> and the timer tick, in the final \<open>while (1) wfi\<close>.

  Modelled from the spec: \<open>sys_exec_lookup\<close> is the helper that looks a user program
  up by name and gives its entry point, or \<open>(uint64_t)-1\<close>; it is taken as a function of the
  state and the six arguments that changes nothing.
\<close>

record env =
  env_switch :: switch
  env_SYS_EXEC :: u64
  env_exec_lookup :: "kstate \<Rightarrow> u64 list \<Rightarrow> u64"
  env_dispatch :: "u64 \<Rightarrow> u64 list \<Rightarrow> u64 \<Rightarrow> kstate \<Rightarrow> (u64 \<times> kstate) option"
  env_timer :: "kstate \<Rightarrow> kstate"

text \<open>\<open>tf[i]\<close> on the \<open>uint64_t *tf\<close>.\<close>

definition tf_get :: "kstate \<Rightarrow> u64 \<Rightarrow> u64 \<Rightarrow> u64" where
  "tf_get s tf i = load64 (mem (vm s)) (tf + 8 * i)"

definition tf_set :: "u64 \<Rightarrow> u64 \<Rightarrow> u64 \<Rightarrow> kstate \<Rightarrow> kstate" where
  "tf_set tf i v s = s\<lparr>vm := (vm s)\<lparr>mem := store64 (mem (vm s)) (tf + 8 * i) v\<rparr>\<rparr>"

text \<open>Lines 189 to 209: the trap frame is copied into the current PCB.\<close>

definition trap_sync_regs :: "u64 \<Rightarrow> u64 \<Rightarrow> kstate \<Rightarrow> kstate" where
  "trap_sync_regs tf epc s =
     (let cur = current_proc s in
      if cur = 0 then s
      else pcb_upd cur (\<lambda>c. c\<lparr>regstat := (regstat c)\<lparr>
             x1 := tf_get s tf 0, x5 := tf_get s tf 1, x6 := tf_get s tf 2, x7 := tf_get s tf 3,
             x10 := tf_get s tf 4, x11 := tf_get s tf 5, x12 := tf_get s tf 6,
             x13 := tf_get s tf 7, x14 := tf_get s tf 8, x15 := tf_get s tf 9,
             x16 := tf_get s tf 10, x17 := tf_get s tf 11,
             sepc := epc, sp := tf + 128, mstatus := csr_mstatus s\<rparr>\<rparr>) s)"

text \<open>The block of \<open>case 8: case 11:\<close>, lines 168 to 246.\<close>

definition trap_ecall :: "env \<Rightarrow> u64 \<Rightarrow> u64 \<Rightarrow> kstate \<Rightarrow> kstate option" where
  "trap_ecall e tf epc s =
     (let num = tf_get s tf 11;
          args = [tf_get s tf 4, tf_get s tf 5, tf_get s tf 6, tf_get s tf 7, tf_get s tf 8,
                  tf_get s tf 9];
          s = trap_sync_regs tf epc s
      in
      if num = env_SYS_EXEC e then
        (let entry = env_exec_lookup e s args in
         if entry = - 1 then
           Some ((tf_set tf 4 (- 1) s)\<lparr>csr_mepc := epc + 4\<rparr>)
         else
           Some ((tf_set tf 5 0 (tf_set tf 4 0 s))\<lparr>csr_mepc := entry\<rparr>))
      else
        do {
          (ret, s) \<leftarrow> env_dispatch e num args epc s;
          Some ((tf_set tf 4 ret s)\<lparr>csr_mepc := epc + 4\<rparr>)
        })"

text \<open>A path that reaches the final \<open>while (1) wfi\<close> does not return: \<open>None\<close>.\<close>

definition trap_handler_c :: "env \<Rightarrow> u64 \<Rightarrow> kstate \<Rightarrow> kstate option" where
  "trap_handler_c e tf s =
     (let cause = csr_mcause s;
          epc = csr_mepc s;
          is_interrupt = drop_bit 63 cause AND 1;
          code = cause AND NOT (push_bit 63 1)
      in
      if is_interrupt = 0 then
        (if code = 8 \<or> code = 11 then trap_ecall e tf epc s
         else if current_proc s \<noteq> 0 then exit_returns (proc_exit (env_switch e) s)
         else None)
      else
        (if code = 7 then schedule (env_switch e) (env_timer e s)
         else None))"

section \<open>Notions used to state the properties\<close>

definition page_aligned :: "u64 \<Rightarrow> bool" where
  "page_aligned a \<longleftrightarrow> a AND (PAGE_SIZE - 1) = 0"

definition pte_valid :: "u64 \<Rightarrow> bool" where
  "pte_valid pte \<longleftrightarrow> pte AND PTE_V \<noteq> 0"

definition in_page :: "u64 \<Rightarrow> u64 \<Rightarrow> bool" where
  "in_page p x \<longleftrightarrow> x - p < PAGE_SIZE"

definition rd :: "memory \<Rightarrow> u64 \<Rightarrow> u64 \<Rightarrow> u64" where
  "rd m T i = load64 m (T + 8 * i)"

datatype tnode = Root | L1 u64 | L0 u64 u64

definition l1_of :: "memory \<Rightarrow> u64 \<Rightarrow> u64 \<Rightarrow> u64" where
  "l1_of m root i = pte_to_phys (rd m root i)"

definition l0_of :: "memory \<Rightarrow> u64 \<Rightarrow> u64 \<Rightarrow> u64 \<Rightarrow> u64" where
  "l0_of m root i j = pte_to_phys (rd m (l1_of m root i) j)"

fun node_ok :: "memory \<Rightarrow> u64 \<Rightarrow> tnode \<Rightarrow> bool" where
  "node_ok m root Root = True"
| "node_ok m root (L1 i) = (i < 512 \<and> pte_valid (rd m root i))"
| "node_ok m root (L0 i j) =
     (i < 512 \<and> pte_valid (rd m root i) \<and> j < 512 \<and> pte_valid (rd m (l1_of m root i) j))"

fun node_page :: "memory \<Rightarrow> u64 \<Rightarrow> tnode \<Rightarrow> u64" where
  "node_page m root Root = root"
| "node_page m root (L1 i) = l1_of m root i"
| "node_page m root (L0 i j) = l0_of m root i j"

definition table_pages :: "vmm_state \<Rightarrow> u64 set" where
  "table_pages s = node_page (mem s) (kernel_pd s) ` {n. node_ok (mem s) (kernel_pd s) n}"

definition vmm_inv :: "vmm_state \<Rightarrow> bool" where
  "vmm_inv s \<longleftrightarrow>
     kernel_pd s \<noteq> 0 \<and> page_aligned (kernel_pd s) \<and>
     inj_on (node_page (mem s) (kernel_pd s)) {n. node_ok (mem s) (kernel_pd s) n} \<and>
     0 \<notin> table_pages s \<and>
     distinct (free_list s) \<and>
     (\<forall>p \<in> set (free_list s). page_aligned p \<and> p \<notin> table_pages s)"




definition same_entry :: "u64 \<Rightarrow> u64 \<Rightarrow> bool" where
  "same_entry va va' \<longleftrightarrow>
     SV39_VPN2 va = SV39_VPN2 va' \<and> SV39_VPN1 va = SV39_VPN1 va' \<and> SV39_VPN0 va = SV39_VPN0 va'"

definition leaf_slot :: "vmm_state \<Rightarrow> u64 \<Rightarrow> u64" where
  "leaf_slot s va =
     l0_of (mem s) (kernel_pd s) (SV39_VPN2 va) (SV39_VPN1 va) + 8 * SV39_VPN0 va"





definition vmm_boot :: vmm_state where
  "vmm_boot = \<lparr>mem = (\<lambda>_. 0), free_list = [0x80002000, 0x80003000, 0x80004000, 0x80005000],
               kernel_pd = 0x80001000\<rparr>"


definition level_missing :: "memory \<Rightarrow> u64 \<Rightarrow> u64 \<Rightarrow> bool" where
  "level_missing m pt idx \<longleftrightarrow> \<not> pte_valid (rd m pt idx) \<or> pte_to_phys (rd m pt idx) = 0"

definition vmm_mapped :: vmm_state where
  "vmm_mapped = snd (vmm_map vmm_boot 0x80400000 0x80009000 6)"


text \<open>Interrupts are enabled: the MIE bit of \<open>mstatus\<close>.\<close>

definition mie :: "kstate \<Rightarrow> bool" where
  "mie s \<longleftrightarrow> csr_mstatus s AND push_bit 3 1 \<noteq> 0"

text \<open>The list that the \<open>next\<close> pointers spell from \<open>p\<close> to the null pointer.\<close>

primrec plist :: "(u64 \<Rightarrow> PCB) \<Rightarrow> u64 \<Rightarrow> u64 list \<Rightarrow> bool" where
  "plist h p [] \<longleftrightarrow> p = 0"
| "plist h p (x # xs) \<longleftrightarrow> p = x \<and> x \<noteq> 0 \<and> plist h (pnext (h x)) xs"

text \<open>\<open>next_pid\<close> after the destruction of pid \<open>p\<close>, as the two reapers compute it.\<close>

definition pid_after :: "u32 \<Rightarrow> u32 \<Rightarrow> u32" where
  "pid_after np p = (if p = np - 1 \<and> 1 <s np then np - 1 else np)"

definition k_boot :: kstate where
  "k_boot = \<lparr>vm = vmm_boot, pcbs = (\<lambda>_. pcb_zero), ready_queue = 0x80006000,
              rq = \<lparr>head = 0, tail = 0, count = 0\<rparr>, idle_proc = 0x80007000, current_proc = 0,
              zombie_list = 0, blocked_list = 0, next_pid = 1, csr_mstatus = 8, csr_mepc = 0,
              csr_mcause = 0, csr_mtval = 0\<rparr>"

definition sw_never :: switch where
  "sw_never = (\<lambda>old nxt s. None)"

definition exec_args :: "kstate \<Rightarrow> u64 \<Rightarrow> u64 list" where
  "exec_args s tf = [tf_get s tf 4, tf_get s tf 5, tf_get s tf 6, tf_get s tf 7, tf_get s tf 8,
                     tf_get s tf 9]"

definition exec_entry :: "env \<Rightarrow> u64 \<Rightarrow> kstate \<Rightarrow> u64" where
  "exec_entry e tf s = env_exec_lookup e (trap_sync_regs tf (csr_mepc s) s) (exec_args s tf)"

definition e_demo :: "u64 \<Rightarrow> env" where
  "e_demo entry = \<lparr>env_switch = sw_never, env_SYS_EXEC = 11, env_exec_lookup = (\<lambda>s args. entry),
                   env_dispatch = (\<lambda>num args epc s. Some (0, s)), env_timer = (\<lambda>s. s)\<rparr>"

definition k_exec :: kstate where
  "k_exec = k_boot\<lparr>vm := vmm_boot\<lparr>mem := store64 (\<lambda>_. 0) 0x80010058 11\<rparr>, current_proc := 0x80008000,
                   csr_mcause := 8, csr_mepc := 0x80200010\<rparr>"

definition k_zombie :: "u32 \<Rightarrow> kstate" where
  "k_zombie pp = k_boot\<lparr>pcbs := (\<lambda>_. pcb_zero)(0x80008000 := pcb_zero\<lparr>pid := 1, pstat := RUNNING\<rparr>,
                                  0x80009000 := pcb_zero\<lparr>pid := 2, ppid := pp, pstat := TERMINATED\<rparr>),
                    current_proc := 0x80008000, zombie_list := 0x80009000, next_pid := 3\<rparr>"

definition k_ready :: kstate where
  "k_ready = k_boot\<lparr>pcbs := (\<lambda>_. pcb_zero)(0x80008000 := pcb_zero\<lparr>pid := 1, pstat := RUNNING\<rparr>,
                                  0x80009000 := pcb_zero\<lparr>pid := 2, ppid := 1, pstat := READY\<rparr>),
                    rq := \<lparr>head = 0x80009000, tail = 0x80009000, count = 1\<rparr>,
                    current_proc := 0x80008000, next_pid := 3\<rparr>"

definition k_exit :: kstate where
  "k_exit = k_boot\<lparr>pcbs := (\<lambda>_. pcb_zero)(0x80008000 := pcb_zero\<lparr>pid := 1, pstat := BLOCKED\<rparr>,
                                  0x80009000 := pcb_zero\<lparr>pid := 2, ppid := 1, pstat := RUNNING\<rparr>,
                                  0x8000A000 := pcb_zero\<lparr>pid := 3, ppid := 1, pstat := READY\<rparr>),
                   rq := \<lparr>head = 0x8000A000, tail = 0x8000A000, count = 1\<rparr>,
                   current_proc := 0x80009000, blocked_list := 0x80008000, next_pid := 4\<rparr>"

section \<open>Words, bytes and alignment\<close>

lemma ucast_ucast_take8: "(ucast (ucast (w::u64) :: u8) :: u64) = take_bit 8 w"
  by (rule bit_word_eqI) (simp add: bit_simps)

lemma split_low8: "take_bit 8 w OR push_bit 8 (drop_bit 8 w) = (w::u64)"
proof (rule bit_word_eqI)
  fix n assume n: "n < LENGTH(64)"
  show "bit (take_bit 8 w OR push_bit 8 (drop_bit 8 w)) n = bit w n"
  proof (cases "n < 8")
    case True then show ?thesis by (simp add: bit_simps)
  next
    case False
    then have "8 + (n - 8) = n" by simp
    with False n show ?thesis by (simp add: bit_simps)
  qed
qed

lemma top_byte: "take_bit 8 (drop_bit 56 (w::u64)) = drop_bit 56 w"
  by (rule bit_word_eqI) (auto simp add: bit_simps dest: bit_imp_le_length)

lemma bytes_ident:
  "take_bit 8 v OR push_bit 8 (take_bit 8 (drop_bit 8 v)) OR push_bit 16 (take_bit 8 (drop_bit 16 v))
     OR push_bit 24 (take_bit 8 (drop_bit 24 v)) OR push_bit 32 (take_bit 8 (drop_bit 32 v))
     OR push_bit 40 (take_bit 8 (drop_bit 40 v)) OR push_bit 48 (take_bit 8 (drop_bit 48 v))
     OR push_bit 56 (take_bit 8 (drop_bit 56 v)) = (v::u64)"
proof -
  have s: "\<And>k. push_bit k (take_bit 8 (drop_bit k v)) OR push_bit (k + 8) (drop_bit (k + 8) v)
                = push_bit k (drop_bit k v)"
  proof -
    fix k
    have "push_bit k (take_bit 8 (drop_bit k v)) OR push_bit (k + 8) (drop_bit (k + 8) v)
          = push_bit k (take_bit 8 (drop_bit k v) OR push_bit 8 (drop_bit 8 (drop_bit k v)))"
      by (simp add: push_bit_or push_bit_push_bit drop_bit_drop_bit add.commute)
    then show "push_bit k (take_bit 8 (drop_bit k v)) OR push_bit (k + 8) (drop_bit (k + 8) v)
                = push_bit k (drop_bit k v)"
      by (simp only: split_low8)
  qed
  have "take_bit 8 v OR push_bit 8 (take_bit 8 (drop_bit 8 v)) OR push_bit 16 (take_bit 8 (drop_bit 16 v))
     OR push_bit 24 (take_bit 8 (drop_bit 24 v)) OR push_bit 32 (take_bit 8 (drop_bit 32 v))
     OR push_bit 40 (take_bit 8 (drop_bit 40 v)) OR push_bit 48 (take_bit 8 (drop_bit 48 v))
     OR push_bit 56 (take_bit 8 (drop_bit 56 v))
     = take_bit 8 v OR (push_bit 8 (take_bit 8 (drop_bit 8 v)) OR (push_bit 16 (take_bit 8 (drop_bit 16 v))
     OR (push_bit 24 (take_bit 8 (drop_bit 24 v)) OR (push_bit 32 (take_bit 8 (drop_bit 32 v))
     OR (push_bit 40 (take_bit 8 (drop_bit 40 v)) OR (push_bit 48 (take_bit 8 (drop_bit 48 v))
     OR push_bit 56 (drop_bit 56 v)))))))"
    by (simp only: top_byte or.assoc)
  also have "\<dots> = v"
    using s[of 48] s[of 40] s[of 32] s[of 24] s[of 16] s[of 8] split_low8[of v]
    by simp
  finally show ?thesis .
qed

lemma load64_store64_same: "load64 (store64 m a v) a = v"
  by (simp add: load64_def store64_def ucast_ucast_take8 bytes_ident)

lemma aligned_add_or:
  fixes a k :: u64
  assumes a: "a AND mask n = 0" and k: "k < 2 ^ n"
  shows "a + k = a OR k"
proof -
  have km: "k AND mask n = k" using k by (rule less_mask_eq)
  have "a AND k = a AND (k AND mask n)" by (simp only: km)
  also have "\<dots> = (a AND mask n) AND k" by (simp add: ac_simps)
  also have "\<dots> = 0" by (simp add: a)
  finally show ?thesis by (rule disjunctive_add_eq_or)
qed

lemma aligned_add_high:
  fixes a k :: u64
  assumes a: "a AND mask n = 0" and k: "k < 2 ^ n"
  shows "(a + k) AND NOT (mask n) = a"
proof -
  have km: "k AND mask n = k" using k by (rule less_mask_eq)
  have k0: "k AND NOT (mask n) = 0"
  proof -
    have "k AND NOT (mask n) = (k AND mask n) AND NOT (mask n)" by (simp only: km)
    also have "\<dots> = 0" by (simp add: and.assoc)
    finally show ?thesis .
  qed
  have a0: "a AND NOT (mask n) = a"
  proof -
    have "a = (a AND mask n) OR (a AND NOT (mask n))"
      by (simp add: bit.conj_disj_distrib[symmetric])
    then show ?thesis by (simp add: a)
  qed
  show ?thesis
    by (simp add: aligned_add_or[OF a k] bit.conj_disj_distrib2 a0 k0)
qed

lemma aligned_add_low:
  fixes a k :: u64
  assumes a: "a AND mask n = 0" and k: "k < 2 ^ n"
  shows "(a + k) AND mask n = k"
proof -
  have km: "k AND mask n = k" using k by (rule less_mask_eq)
  show ?thesis
    by (simp add: aligned_add_or[OF a k] bit.conj_disj_distrib2 a km)
qed

lemma high_low: "(x AND NOT (mask n)) + (x AND mask n) = (x::u64)"
proof -
  have "(x AND NOT (mask n)) AND (x AND mask n) = 0"
    by (simp add: ac_simps)
  then have "(x AND NOT (mask n)) + (x AND mask n) = (x AND NOT (mask n)) OR (x AND mask n)"
    by (rule disjunctive_add_eq_or)
  also have "\<dots> = x" by (simp add: bit.conj_disj_distrib[symmetric])
  finally show ?thesis .
qed

lemma in_block_iff:
  fixes x p :: u64
  assumes p: "p AND mask n = 0" and n: "n < 64"
  shows "(x - p < 2 ^ n) = (x AND NOT (mask n) = p)"
proof
  assume "x - p < 2 ^ n"
  from aligned_add_high[OF p this] show "x AND NOT (mask n) = p" by simp
next
  assume h: "x AND NOT (mask n) = p"
  have "x - p = x AND mask n" using high_low[of x n] h by (simp add: algebra_simps) 
  moreover have "x AND mask n < 2 ^ n" using n by (intro and_mask_less_size) (simp add: word_size)
  ultimately show "x - p < 2 ^ n" by simp
qed

lemma mask12: "mask 12 = (0xFFF::u64)" by (simp add: mask_eq_exp_minus_1)
lemma mask3: "mask 3 = (7::u64)" by (simp add: mask_eq_exp_minus_1)

lemma page_aligned_mask: "page_aligned p \<longleftrightarrow> p AND mask 12 = 0"
  by (simp add: page_aligned_def PAGE_SIZE_def mask12)





lemma zero_bytes_apply:
  "zero_bytes n p m x = (if \<exists>i<n. x = p + of_nat i then 0 else m x)"
  by (induction n) (auto simp: less_Suc_eq)

lemma ex_offset_iff: "n \<le> 2 ^ 64 \<Longrightarrow> (\<exists>i<n. x = p + of_nat i) \<longleftrightarrow> unat (x - p) < n" for x p :: u64
proof
  assume n: "n \<le> 2 ^ 64" and "\<exists>i<n. x = p + of_nat i"
  then obtain i where i: "i < n" "x = p + of_nat i" by blast
  then have "x - p = of_nat i" by simp
  moreover have "unat (of_nat i :: u64) = i" using i n by (simp add: unat_of_nat take_bit_nat_eq_self)
  ultimately show "unat (x - p) < n" using i by simp
next
  assume "unat (x - p) < n"
  then show "\<exists>i<n. x = p + of_nat i" by (intro exI[of _ "unat (x - p)"]) simp
qed

lemma page_zero_apply: "page_zero m p x = (if x - p < PAGE_SIZE then 0 else m x)"
  by (simp add: page_zero_def zero_bytes_apply ex_offset_iff PAGE_SIZE_def word_less_nat_alt)



lemma page_aligned_pte_to_phys: "page_aligned (pte_to_phys x)"
  unfolding page_aligned_mask pte_to_phys_def
  by (rule bit_word_eqI) (auto simp add: bit_simps)






lemma aligned8_byte_slot:
  fixes a k :: u64
  assumes "a AND 7 = 0" "k < 8"
  shows "(a + k) AND NOT 7 = a"
  using aligned_add_high[of a 3 k] assms by (simp add: mask3)

lemma aligned8_self: "a AND 7 = 0 \<Longrightarrow> a AND NOT 7 = (a::u64)"
  using aligned8_byte_slot[of a 0] by simp

lemma store64_other_byte:
  assumes a: "a AND 7 = 0" and x: "x AND NOT 7 \<noteq> a"
  shows "store64 m a v x = m x"
proof -
  have "x \<noteq> a + k" if "k < 8" for k
    using aligned8_byte_slot[OF a that] x by auto
  from this[of 0] this[of 1] this[of 2] this[of 3] this[of 4] this[of 5] this[of 6] this[of 7]
  show ?thesis by (simp add: store64_def)
qed

lemma load64_cong:
  assumes "\<And>k. k < 8 \<Longrightarrow> m' (a + k) = m (a + k)"
  shows "load64 m' a = load64 m a"
  using assms[of 0] assms[of 1] assms[of 2] assms[of 3] assms[of 4] assms[of 5] assms[of 6] assms[of 7]
  by (simp add: load64_def)

lemma load64_store64:
  assumes a: "a AND 7 = 0" and b: "b AND 7 = 0"
  shows "load64 (store64 m a v) b = (if a = b then v else load64 m b)"
proof (cases "a = b")
  case True
  then show ?thesis by (simp add: load64_store64_same)
next
  case False
  have "load64 (store64 m a v) b = load64 m b"
  proof (rule load64_cong)
    fix k :: u64 assume "k < 8"
    then have "(b + k) AND NOT 7 = b" using b by (rule aligned8_byte_slot[rotated])
    with False show "store64 m a v (b + k) = m (b + k)"
      by (intro store64_other_byte[OF a]) simp
  qed
  with False show ?thesis by simp
qed

lemma byte_same_page:
  fixes b k :: u64
  assumes b: "b AND 7 = 0" and k: "k < 8"
  shows "(b + k) AND NOT (mask 12) = b AND NOT (mask 12)"
proof -
  have "k < 2 ^ 3" using k by simp
  with b have e: "b + k = b OR k" by (intro aligned_add_or[of b 3 k]) (simp_all add: mask3)
  have "k < 2 ^ 12" using k by unat_arith
  then have "k AND mask 12 = k" by (rule less_mask_eq)
  then have "k AND NOT (mask 12) = (k AND mask 12) AND NOT (mask 12)" by simp
  also have "\<dots> = 0" by (simp add: and.assoc)
  finally show ?thesis by (simp add: e bit.conj_disj_distrib2)
qed

lemma in_page_iff: "page_aligned p \<Longrightarrow> in_page p x \<longleftrightarrow> x AND NOT (mask 12) = p"
  using in_block_iff[of p 12 x] by (simp add: in_page_def PAGE_SIZE_def page_aligned_mask)

lemma load64_page_zero:
  assumes p: "page_aligned p" and b: "b AND 7 = 0"
  shows "load64 (page_zero m p) b = (if in_page p b then 0 else load64 m b)"
proof -
  have pg: "in_page p (b + k) = in_page p b" if "k < 8" for k
    using byte_same_page[OF b that] by (simp add: in_page_iff[OF p])
  show ?thesis
  proof (cases "in_page p b")
    case True
    then have "page_zero m p (b + k) = 0" if "k < 8" for k
      using pg[OF that] by (simp add: page_zero_apply in_page_def)
    from this[of 0] this[of 1] this[of 2] this[of 3] this[of 4] this[of 5] this[of 6] this[of 7] True
    show ?thesis by (simp add: load64_def)
  next
    case False
    have "load64 (page_zero m p) b = load64 m b"
    proof (rule load64_cong)
      fix k :: u64 assume "k < 8"
      from pg[OF this] False show "page_zero m p (b + k) = m (b + k)"
        by (simp add: page_zero_apply in_page_def)
    qed
    with False show ?thesis by simp
  qed
qed

lemma load64_zero_mem: "load64 (\<lambda>_. 0) a = 0"
  by (simp add: load64_def)

section \<open>Page tables as trees of pages\<close>

lemma page_aligned_aligned8: "page_aligned T \<Longrightarrow> T AND 7 = 0"
proof -
  assume "page_aligned T"
  then have t: "T AND mask 12 = 0" by (simp add: page_aligned_mask)
  have "(7::u64) = mask 12 AND 7" by (simp add: mask12)
  then have "T AND 7 = (T AND mask 12) AND 7" by (simp add: and.assoc)
  then show ?thesis by (simp add: t)
qed












text \<open>What the two table levels of a walk are, and the slot the walk ends in.\<close>

lemma inv_root: "vmm_inv s \<Longrightarrow> page_aligned (kernel_pd s) \<and> kernel_pd s \<noteq> 0"
  by (simp add: vmm_inv_def)






lemma pte_valid_0: "\<not> pte_valid 0"
  by (simp add: pte_valid_def)




















section \<open>The virtual-memory manager over a run of calls\<close>



lemmas vmm_eval = vmm_map_def vmm_translate_def vmm_unmap_def vmm_boot_def PAGE_SIZE_def
  SV39_VPN2_def SV39_VPN1_def SV39_VPN0_def SV39_PAGE_OFFSET_def get_next_level_def
  alloc_page_table_page_def kalloc_def kfree_def Let_def load64_store64 load64_page_zero
  load64_zero_mem page_aligned_def in_page_def make_pte_def pte_to_phys_def
  vmm_flags_to_pte_flags_def pte_bits vmm_flag_bits

lemma same_entry_sym: "same_entry a b = same_entry b a"
  by (auto simp add: same_entry_def)




section \<open>Claims about the virtual-memory manager\<close>



section \<open>Flags and single calls\<close>










lemma gnl_False:
  "get_next_level s pt idx False =
     (if pte_valid (rd (mem s) pt idx) then pte_to_phys (rd (mem s) pt idx) else 0, s)"
  by (simp add: get_next_level_def rd_def pte_valid_def Let_def)

lemma add8_aligned8:
  fixes a i :: u64
  assumes "a AND 7 = 0"
  shows "(a + 8 * i) AND 7 = 0"
proof -
  have a: "take_bit 3 a = 0" using assms by (simp add: take_bit_eq_mask mask3)
  have "push_bit 3 (drop_bit 3 a) + take_bit 3 a = a" by (rule bits_ident)
  then have "a = push_bit 3 (drop_bit 3 a)" by (simp add: a)
  moreover have "8 * i = push_bit 3 i" by (simp add: push_bit_eq_mult)
  ultimately have "a + 8 * i = push_bit 3 (drop_bit 3 a + i)" by (simp add: push_bit_add)
  then have "take_bit 3 (a + 8 * i) = 0" by (simp add: take_bit_push_bit)
  then show ?thesis by (simp add: take_bit_eq_mask mask3)
qed

lemma pte_to_phys_aligned8: "pte_to_phys x AND 7 = 0"
  using page_aligned_aligned8[OF page_aligned_pte_to_phys] .

lemma store64_byte1: "store64 m a v (a + 1) = ucast (drop_bit 8 v)"
  by (simp add: store64_def)

lemma pte_and_V: "x AND PTE_V = PTE_V \<longleftrightarrow> pte_valid x"
  by (auto simp add: pte_valid_def PTE_V_def and_one_eq split: if_splits)




lemma gnl_False_missing:
  "get_next_level s pt idx False =
     (if level_missing (mem s) pt idx then 0 else pte_to_phys (rd (mem s) pt idx), s)"
  by (auto simp add: gnl_False level_missing_def)

lemma vmm_unmap_walk:
  "vmm_unmap s va fp =
     (if kernel_pd s = 0 \<or> va AND (PAGE_SIZE - 1) \<noteq> 0 \<or>
         level_missing (mem s) (kernel_pd s) (SV39_VPN2 va) \<or>
         level_missing (mem s) (l1_of (mem s) (kernel_pd s) (SV39_VPN2 va)) (SV39_VPN1 va) \<or>
         \<not> pte_valid (load64 (mem s) (leaf_slot s va))
      then (-1, s)
      else (0, if fp \<noteq> 0
               then kfree (pte_to_phys (load64 (mem s) (leaf_slot s va)))
                      (s\<lparr>mem := store64 (mem s) (leaf_slot s va) 0\<rparr>)
               else s\<lparr>mem := store64 (mem s) (leaf_slot s va) 0\<rparr>))"
  by (auto simp add: vmm_unmap_def gnl_False Let_def leaf_slot_def l1_of_def l0_of_def
      pte_valid_def level_missing_def rd_def)

lemma vmm_translate_walk:
  "vmm_translate s va =
     (if kernel_pd s = 0 \<or>
         level_missing (mem s) (kernel_pd s) (SV39_VPN2 va) \<or>
         level_missing (mem s) (l1_of (mem s) (kernel_pd s) (SV39_VPN2 va)) (SV39_VPN1 va) \<or>
         \<not> pte_valid (load64 (mem s) (leaf_slot s va))
      then 0
      else pte_to_phys (load64 (mem s) (leaf_slot s va)) OR SV39_PAGE_OFFSET va)"
  by (auto simp add: vmm_translate_def gnl_False Let_def leaf_slot_def l1_of_def l0_of_def
      pte_valid_def level_missing_def rd_def)

lemma translate_cleared:
  assumes r: "kernel_pd s AND 7 = 0"
    and m': "mem s' = store64 (mem s) (leaf_slot s va) 0" and k: "kernel_pd s' = kernel_pd s"
  shows "vmm_translate s' va = 0"
proof -
  let ?m = "mem s" and ?r = "kernel_pd s"
  let ?a0 = "leaf_slot s va"
  have a0: "?a0 AND 7 = 0"
    unfolding leaf_slot_def l0_of_def by (rule add8_aligned8[OF pte_to_phys_aligned8])
  have rd': "rd (mem s') T i = (if ?a0 = T + 8 * i then 0 else rd ?m T i)" if "T AND 7 = 0" for T i
    unfolding rd_def m' by (rule load64_store64[OF a0 add8_aligned8[OF that]])
  show ?thesis
  proof (cases "level_missing (mem s') ?r (SV39_VPN2 va)")
    case True
    then show ?thesis by (simp add: vmm_translate_walk k)
  next
    case n2: False
    then have e2: "rd (mem s') ?r (SV39_VPN2 va) = rd ?m ?r (SV39_VPN2 va)"
      using rd'[OF r, of "SV39_VPN2 va"] by (auto simp add: level_missing_def pte_valid_0)
    then have l1: "l1_of (mem s') ?r (SV39_VPN2 va) = l1_of ?m ?r (SV39_VPN2 va)"
      by (simp add: l1_of_def)
    show ?thesis
    proof (cases "level_missing (mem s') (l1_of ?m ?r (SV39_VPN2 va)) (SV39_VPN1 va)")
      case True
      then show ?thesis by (simp add: vmm_translate_walk k l1)
    next
      case n1: False
      have al: "l1_of ?m ?r (SV39_VPN2 va) AND 7 = 0"
        unfolding l1_of_def by (rule pte_to_phys_aligned8)
      have e1: "rd (mem s') (l1_of ?m ?r (SV39_VPN2 va)) (SV39_VPN1 va)
                 = rd ?m (l1_of ?m ?r (SV39_VPN2 va)) (SV39_VPN1 va)"
        using n1 rd'[OF al, of "SV39_VPN1 va"] by (auto simp add: level_missing_def pte_valid_0)
      then have "leaf_slot s' va = ?a0" by (simp add: leaf_slot_def l0_of_def k l1 l1_of_def e2)
      then have "load64 (mem s') (leaf_slot s' va) = 0" by (simp add: m' load64_store64_same)
      then show ?thesis by (simp add: vmm_translate_walk pte_valid_0)
    qed
  qed
qed

text \<open>
  Claim C5.  \<open>vmm_unmap va free_phys\<close> returns -1 exactly when the root table is unset, \<open>va\<close>
  is not 4 KiB aligned, one of the two upper levels of the walk is missing (its entry is not
  valid, or carries the null address, which \<open>get_next_level\<close> hands back as a null pointer),
  or the leaf entry is not valid.  In every other case it returns 0, the leaf entry reads 0
  afterwards, the page the entry pointed to is put on the free list if \<open>free_phys\<close> is not
  zero and the free list is left alone if it is zero, and (for a root pointer that is
  8-byte aligned, as every \<open>vmm_pte_t *\<close> is) \<open>vmm_translate va\<close> returns null.
\<close>

theorem vmm_unmap_result:
  "(fst (vmm_unmap s va fp) = -1 \<longleftrightarrow>
      kernel_pd s = 0 \<or> va AND (PAGE_SIZE - 1) \<noteq> 0 \<or>
      level_missing (mem s) (kernel_pd s) (SV39_VPN2 va) \<or>
      level_missing (mem s) (l1_of (mem s) (kernel_pd s) (SV39_VPN2 va)) (SV39_VPN1 va) \<or>
      \<not> pte_valid (load64 (mem s) (leaf_slot s va))) \<and>
   (fst (vmm_unmap s va fp) \<noteq> -1 \<longrightarrow>
      fst (vmm_unmap s va fp) = 0 \<and>
      load64 (mem (snd (vmm_unmap s va fp))) (leaf_slot s va) = 0 \<and>
      free_list (snd (vmm_unmap s va fp)) =
        (if fp \<noteq> 0 then pte_to_phys (load64 (mem s) (leaf_slot s va)) # free_list s
         else free_list s) \<and>
      (kernel_pd s AND 7 = 0 \<longrightarrow> vmm_translate (snd (vmm_unmap s va fp)) va = 0))"
proof (cases "fst (vmm_unmap s va fp) = -1")
  case True
  then show ?thesis by (auto simp add: vmm_unmap_walk split: if_splits)
next
  case False
  then have ok: "\<not> (kernel_pd s = 0 \<or> va AND (PAGE_SIZE - 1) \<noteq> 0 \<or>
      level_missing (mem s) (kernel_pd s) (SV39_VPN2 va) \<or>
      level_missing (mem s) (l1_of (mem s) (kernel_pd s) (SV39_VPN2 va)) (SV39_VPN1 va) \<or>
      \<not> pte_valid (load64 (mem s) (leaf_slot s va)))"
    by (auto simp add: vmm_unmap_walk split: if_splits)
  let ?s' = "snd (vmm_unmap s va fp)"
  have m': "mem ?s' = store64 (mem s) (leaf_slot s va) 0" and k: "kernel_pd ?s' = kernel_pd s"
    using ok by (auto simp add: vmm_unmap_walk kfree_def)
  have t: "kernel_pd s AND 7 = 0 \<longrightarrow> vmm_translate ?s' va = 0"
    using translate_cleared[OF _ m' k] by blast
  have f: "free_list ?s' =
        (if fp \<noteq> 0 then pte_to_phys (load64 (mem s) (leaf_slot s va)) # free_list s
         else free_list s)"
    using ok by (auto simp add: vmm_unmap_walk kfree_def)
  have r: "fst (vmm_unmap s va fp) = 0" using ok by (auto simp add: vmm_unmap_walk)
  have z: "load64 (mem ?s') (leaf_slot s va) = 0" by (simp add: m' load64_store64_same)
  show ?thesis using ok r z f t False by blast
qed

lemma word_less_8_cases:
  fixes k :: u64
  assumes "k < 8"
  shows "k = 0 \<or> k = 1 \<or> k = 2 \<or> k = 3 \<or> k = 4 \<or> k = 5 \<or> k = 6 \<or> k = 7"
proof -
  have "unat k < 8" using assms by (simp add: word_less_nat_alt)
  then have "unat k = 0 \<or> unat k = 1 \<or> unat k = 2 \<or> unat k = 3 \<or> unat k = 4 \<or> unat k = 5
     \<or> unat k = 6 \<or> unat k = 7" by arith
  then show ?thesis by (auto simp add: word_unat_eq_iff)
qed

lemma store64_apply:
  "store64 m a v x = (if x - a < 8 then ucast (drop_bit (8 * unat (x - a)) v) else m x)"
proof (cases "x - a < 8")
  case True
  from word_less_8_cases[OF this] show ?thesis
  proof (elim disjE)
    assume "x - a = 0" then have "x = a" by simp
    then show ?thesis by (simp add: store64_def)
  next
    assume e: "x - a = 1" then have "x = a + 1" by (simp add: algebra_simps)
    then show ?thesis by (simp add: store64_def)
  next
    assume e: "x - a = 2" then have "x = a + 2" by (simp add: algebra_simps)
    then show ?thesis by (simp add: store64_def)
  next
    assume e: "x - a = 3" then have "x = a + 3" by (simp add: algebra_simps)
    then show ?thesis by (simp add: store64_def)
  next
    assume e: "x - a = 4" then have "x = a + 4" by (simp add: algebra_simps)
    then show ?thesis by (simp add: store64_def)
  next
    assume e: "x - a = 5" then have "x = a + 5" by (simp add: algebra_simps)
    then show ?thesis by (simp add: store64_def)
  next
    assume e: "x - a = 6" then have "x = a + 6" by (simp add: algebra_simps)
    then show ?thesis by (simp add: store64_def)
  next
    assume e: "x - a = 7" then have "x = a + 7" by (simp add: algebra_simps)
    then show ?thesis by (simp add: store64_def)
  qed
next
  case False
  have "x \<noteq> a + k" if "k < 8" for k using False that by auto
  from this[of 0] this[of 1] this[of 2] this[of 3] this[of 4] this[of 5] this[of 6] this[of 7]
  show ?thesis using False by (simp add: store64_def)
qed

theorem vmm_unmap_result_witness:
  "kernel_pd vmm_mapped AND 7 = 0 \<and>
   fst (vmm_unmap vmm_mapped 0x80400000 1) = 0 \<and>
   load64 (mem (snd (vmm_unmap vmm_mapped 0x80400000 1))) (leaf_slot vmm_mapped 0x80400000) = 0 \<and>
   free_list (snd (vmm_unmap vmm_mapped 0x80400000 1)) = 0x80009000 # free_list vmm_mapped \<and>
   free_list (snd (vmm_unmap vmm_mapped 0x80400000 0)) = free_list vmm_mapped \<and>
   vmm_translate (snd (vmm_unmap vmm_mapped 0x80400000 1)) 0x80400000 = 0 \<and>
   fst (vmm_unmap vmm_mapped 0x80401000 1) = -1"
proof -
  have k: "kernel_pd vmm_mapped AND 7 = 0"
    by (simp add: vmm_mapped_def vmm_eval)
  have r: "fst (vmm_unmap vmm_mapped 0x80400000 1) \<noteq> -1"
          "fst (vmm_unmap vmm_mapped 0x80400000 0) \<noteq> -1"
    by (simp_all add: vmm_mapped_def vmm_eval)
  have p: "pte_to_phys (load64 (mem vmm_mapped) (leaf_slot vmm_mapped 0x80400000)) = 0x80009000"
    by (simp add: vmm_mapped_def leaf_slot_def l0_of_def l1_of_def rd_def vmm_eval)
  have m: "\<not> pte_valid (load64 (mem vmm_mapped) (leaf_slot vmm_mapped 0x80401000))"
    by (simp add: vmm_mapped_def leaf_slot_def l0_of_def l1_of_def rd_def pte_valid_def vmm_eval)
  from vmm_unmap_result[of vmm_mapped "0x80400000" 1] vmm_unmap_result[of vmm_mapped "0x80400000" 0]
       vmm_unmap_result[of vmm_mapped "0x80401000" 1] k r p m
  show ?thesis by simp
qed






section \<open>A table page freed while in use\<close>


section \<open>Interrupt enabling\<close>

lemma mie_intr_on [simp]: "mie (intr_on s)"
proof -
  have "bit (csr_mstatus s OR push_bit 3 1 AND push_bit 3 (1::u64)) 3"
    by (simp add: bit_simps)
  then show ?thesis unfolding mie_def intr_on_def by auto
qed

lemma mie_intr_off [simp]: "\<not> mie (intr_off s)"
  unfolding mie_def intr_off_def by (simp add: and.assoc)

lemma proc_exit_Some:
  "exit_returns (proc_exit sw s) = Some s' \<longleftrightarrow> current_proc s = 0 \<and> s' = intr_off s"
  by (auto simp add: proc_exit_def Let_def intr_off_def split: option.splits)

lemma fork_heap_mie: "mie (snd (fork_heap parent child s))"
  by (simp add: fork_heap_def Let_def split: prod.splits)

lemma proc_fork_mie: "mie (snd (proc_fork mepc s))"
  by (simp add: proc_fork_def Let_def fork_heap_mie split: prod.splits)

lemma bind_intr_on: "(A \<bind> (\<lambda>s. Some (intr_on s))) = Some s' \<Longrightarrow> mie s'"
  by (auto split: bind_splits)

lemma bind2_intr_on: "(A \<bind> (\<lambda>s. B s \<bind> (\<lambda>s. Some (intr_on s)))) = Some s' \<Longrightarrow> mie s'"
  by (auto split: bind_splits)

lemma schedule_mie:
  assumes "schedule sw s = Some s'"
  shows "mie s'"
proof -
  obtain n0 s1 where d: "dequeue (intr_off s) = (n0, s1)" by (cases "dequeue (intr_off s)")
  define nxt where "nxt = (if n0 = 0 then
                   (if current_proc s1 \<noteq> 0 \<and> pstat (pcbs s1 (current_proc s1)) = RUNNING \<and>
                       current_proc s1 \<noteq> idle_proc s1
                    then current_proc s1 else idle_proc s1)
                 else n0)"
  have "\<exists>A. schedule sw s = A \<bind> (\<lambda>s. Some (intr_on s)) \<or>
            schedule sw s = None \<or>
            (\<exists>B. schedule sw s = A \<bind> (\<lambda>s. B s \<bind> (\<lambda>s. Some (intr_on s))))"
    unfolding schedule_def Let_def d prod.case nxt_def[symmetric]
    by (cases "nxt = 0"; cases "nxt = current_proc s1 \<and> pstat (pcbs s1 nxt) = RUNNING";
        cases "current_proc s1 = 0") auto
  then show ?thesis using assms bind_intr_on bind2_intr_on by (metis option.distinct(1))
qed

lemma proc_suspend_current_mie: "proc_suspend_current sw s = Some s' \<Longrightarrow> mie s'"
  by (auto simp add: proc_suspend_current_def Let_def split: if_splits bind_splits)

lemma wait_scan_mie:
  assumes "wait_scan mypid prev cur s = Some r"
  shows "case r of Some (p, s') \<Rightarrow> mie s' | None \<Rightarrow> True"
  by (rule wait_scan.raw_induct[where P = "\<lambda>_ _ _ _ r. case r of Some (p, s') \<Rightarrow> mie s' | None \<Rightarrow> True",
        OF _ assms])
     (auto simp add: Let_def split: if_splits)

lemma wait_loop_mie:
  assumes "wait_loop sw s = Some r"
  shows "mie (snd r)"
proof (rule wait_loop.raw_induct[where P = "\<lambda>_ _ r. mie (snd r)", OF _ assms])
  fix wl sw s0 r
  assume IH: "\<And>sw s r. wl sw s = Some r \<Longrightarrow> mie (snd r)"
    and st: "(let s = intr_off s0
      in wait_scan (pid (pcbs s (current_proc s))) 0 (zombie_list s) s \<bind>
         (\<lambda>r. case r of
              None \<Rightarrow>
                let s = pcb_upd (current_proc s) (pstat_update (\<lambda>_. BLOCKED)) s;
                    s = pcb_upd (current_proc s) (pnext_update (\<lambda>_. blocked_list s)) s;
                    s = s\<lparr>blocked_list := current_proc s\<rparr>
                in schedule sw s \<bind> wl sw
              | Some res \<Rightarrow> Some res)) = Some r"
  from st obtain q where q: "wait_scan (pid (pcbs (intr_off s0) (current_proc (intr_off s0)))) 0
        (zombie_list (intr_off s0)) (intr_off s0) = Some q"
    by (auto simp add: Let_def split: bind_splits)
  show "mie (snd r)"
  proof (cases q)
    case None
    then show ?thesis using st q IH by (auto simp add: Let_def split: bind_splits)
  next
    case (Some res)
    then show ?thesis using st q wait_scan_mie[OF q] by (auto simp add: Let_def)
  qed
qed

lemma proc_wait_and_reap_mie:
  "proc_wait_and_reap sw s = Some (r, s') \<Longrightarrow> current_proc s \<noteq> 0 \<Longrightarrow> mie s'"
  using wait_loop_mie[of sw s "(r, s')"] by (simp add: proc_wait_and_reap_def)

lemma search_ret:
  "(A \<bind> (\<lambda>r. case r of Some t \<Rightarrow> Some (0::int, intr_on t) | None \<Rightarrow> B)) = Some (x, s') \<Longrightarrow>
   (\<exists>t. s' = intr_on t) \<or> B = Some (x, s')"
  by (auto split: bind_splits option.splits)

lemma proc_kill_search_ret:
  assumes b: "proc_kill_search p s = Some (r, s')"
  shows "\<exists>t. s' = intr_on t"
proof -
  from search_ret[OF b[unfolded proc_kill_search_def]] show ?thesis
  proof
    assume "\<exists>t. s' = intr_on t" then show ?thesis .
  next
    assume c: "kill_blocked_loop p 0 (blocked_list s) s \<bind>
      (\<lambda>r. case r of None \<Rightarrow> kill_zombie_loop p 0 (zombie_list s) s \<bind>
            (\<lambda>r. case r of None \<Rightarrow> Some (- 1, intr_on s) | Some s' \<Rightarrow> Some (0, intr_on s'))
        | Some s' \<Rightarrow> Some (0, intr_on s')) = Some (r, s')"
    from search_ret[OF c] show ?thesis
    proof
      assume "\<exists>t. s' = intr_on t" then show ?thesis .
    next
      assume d: "kill_zombie_loop p 0 (zombie_list s) s \<bind>
            (\<lambda>r. case r of None \<Rightarrow> Some (- 1, intr_on s) | Some s' \<Rightarrow> Some (0, intr_on s'))
             = Some (r, s')"
      from search_ret[OF d] show ?thesis by auto
    qed
  qed
qed

text \<open>\<open>proc_kill\<close> of the running process does not return: \<open>proc_exit\<close> does not.\<close>

lemma proc_kill_Some:
  "proc_kill sw p s = Some (r, s') \<longleftrightarrow>
     (if p <s 0 \<or> (idle_proc s \<noteq> 0 \<and> pid (pcbs s (idle_proc s)) = p)
      then r = - 1 \<and> s' = intr_on (intr_off s)
      else \<not> (current_proc s \<noteq> 0 \<and> pid (pcbs s (current_proc s)) = p) \<and>
           proc_kill_search p (intr_off s) = Some (r, s'))"
proof -
  have i: "idle_proc (intr_off s) = idle_proc s" "current_proc (intr_off s) = current_proc s"
    "pcbs (intr_off s) = pcbs s" "current_proc (intr_on (intr_off s)) = current_proc s"
    by (simp_all add: intr_off_def intr_on_def)
  have e: "current_proc s \<noteq> 0 \<Longrightarrow> exit_returns (proc_exit sw (intr_on (intr_off s))) = None"
    using proc_exit_Some[of sw "intr_on (intr_off s)"] i(4)
    by (cases "exit_returns (proc_exit sw (intr_on (intr_off s)))") auto
  show ?thesis
    unfolding proc_kill_def Let_def i using e by (auto simp add: i)
qed

lemma proc_kill_mie:
  assumes k: "proc_kill sw p s = Some (r, s')"
  shows "mie s'"
  using k proc_kill_search_ret[of p "intr_off s" r s']
  by (auto simp add: proc_kill_Some split: if_splits)

text \<open>
  \<open>proc_fork\<close>, \<open>proc_wait_and_reap\<close> (once it has a current process and so disables
  interrupts at all), \<open>proc_kill\<close>, \<open>proc_suspend_current\<close> and \<open>schedule\<close> return with the
  interrupt-enable bit set whenever they return.
\<close>

lemma interrupts_reenabled:
  "mie (snd (proc_fork mepc s))"
  "proc_wait_and_reap sw s = Some (r, s') \<Longrightarrow> current_proc s \<noteq> 0 \<Longrightarrow> mie s'"
  "proc_kill sw p s = Some (k, s') \<Longrightarrow> mie s'"
  "proc_suspend_current sw s = Some s' \<Longrightarrow> mie s'"
  "schedule sw s = Some s' \<Longrightarrow> mie s'"
  by (rule proc_fork_mie proc_wait_and_reap_mie proc_kill_mie proc_suspend_current_mie
        schedule_mie; assumption)+

lemma proc_exit_no_current: "current_proc s = 0 \<Longrightarrow> proc_exit sw s = Returned (intr_off s)"
  by (simp add: proc_exit_def Let_def intr_off_def)

text \<open>
  Claim C8 fails for \<open>proc_exit\<close>.  Called without a current process, with interrupts
  enabled, it returns through the early \<open>return\<close> that follows \<open>intr_off()\<close>, and returns with
  interrupts disabled.  The same test in \<open>proc_fork\<close> and \<open>proc_suspend_current\<close> is followed
  by \<open>intr_on()\<close> before the \<open>return\<close>.
\<close>

theorem proc_exit_returns_interrupts_off:
  "mie k_boot \<and> current_proc k_boot = 0 \<and>
   proc_exit sw_never k_boot = Returned (intr_off k_boot) \<and> \<not> mie (intr_off k_boot)"
proof -
  have c: "current_proc k_boot = 0" by (simp add: k_boot_def)
  have "mie k_boot" by (simp add: k_boot_def mie_def)
  moreover have "\<not> mie (intr_off k_boot)" by simp
  ultimately show ?thesis using c proc_exit_no_current[OF c] by simp
qed

section \<open>The exec system call\<close>

lemma store64_next_slot:
  assumes b: "b = a + 8"
  shows "load64 (store64 m b v) a = load64 m a"
  unfolding b
proof (rule load64_cong)
  fix k :: u64 assume k: "k < 8"
  have "a + k - (a + 8) = k - 8" by simp
  moreover have "\<not> (k - 8 < 8)" using k by (unat_arith, simp)
  ultimately have "\<not> (a + k - (a + 8) < 8)" by simp
  then show "store64 m (a + 8) v (a + k) = m (a + k)" by (simp add: store64_apply)
qed

lemma store64_far:
  assumes b: "b = a + 8" and x: "16 \<le> x - a"
  shows "store64 (store64 m a v) b w x = m x"
proof -
  note x
  moreover have "x - (a + 8) = x - a - 8" by simp
  ultimately have "\<not> (x - a < 8)" "\<not> (x - (a + 8) < 8)" by unat_arith+
  then show ?thesis by (simp add: store64_apply b)
qed

lemma ecall_code:
  "csr_mcause s = 8 \<or> csr_mcause s = 11 \<Longrightarrow>
   trap_handler_c e tf s = trap_ecall e tf (csr_mepc s) s"
  by (auto simp add: trap_handler_c_def Let_def)

lemma trap_sync_regs_frame:
  "vm (trap_sync_regs tf epc s) = vm s"
  "csr_mepc (trap_sync_regs tf epc s) = csr_mepc s"
  "(pcbs (trap_sync_regs tf epc s) p)\<lparr>regstat := r\<rparr> = (pcbs s p)\<lparr>regstat := r\<rparr>"
  by (simp_all add: trap_sync_regs_def Let_def pcb_upd_def)

lemma tf_slots:
  "tf_get (tf_set tf i v s) tf i = v"
  "tf_get (tf_set tf 5 w (tf_set tf 4 v s)) tf 4 = v"
proof -
  show "tf_get (tf_set tf i v s) tf i = v"
    by (simp add: tf_get_def tf_set_def load64_store64_same)
  show "tf_get (tf_set tf 5 w (tf_set tf 4 v s)) tf 4 = v"
    by (simp add: tf_get_def tf_set_def load64_store64_same store64_next_slot[of "tf + 40" "tf + 32"])
qed

lemma tf_get_mepc: "tf_get (s\<lparr>csr_mepc := v\<rparr>) tf i = tf_get s tf i"
  by (simp add: tf_get_def)

lemma trap_exec_found:
  assumes "csr_mcause s = 8 \<or> csr_mcause s = 11" and "tf_get s tf 11 = env_SYS_EXEC e"
    and "exec_entry e tf s \<noteq> - 1"
  shows "trap_handler_c e tf s =
         Some ((tf_set tf 5 0 (tf_set tf 4 0 (trap_sync_regs tf (csr_mepc s) s)))
                 \<lparr>csr_mepc := exec_entry e tf s\<rparr>)"
  using assms by (simp add: ecall_code trap_ecall_def Let_def exec_entry_def exec_args_def)

lemma trap_exec_missing:
  assumes "csr_mcause s = 8 \<or> csr_mcause s = 11" and "tf_get s tf 11 = env_SYS_EXEC e"
    and "exec_entry e tf s = - 1"
  shows "trap_handler_c e tf s =
         Some ((tf_set tf 4 (- 1) (trap_sync_regs tf (csr_mepc s) s))\<lparr>csr_mepc := csr_mepc s + 4\<rparr>)"
  using assms by (simp add: ecall_code trap_ecall_def Let_def exec_entry_def exec_args_def)

lemma trap_sync_regs_pcbs:
  "p \<noteq> current_proc s \<Longrightarrow> pcbs (trap_sync_regs tf epc s) p = pcbs s p"
  "current_proc s = 0 \<Longrightarrow> trap_sync_regs tf epc s = s"
  "current_proc s \<noteq> 0 \<Longrightarrow>
     regstat (pcbs (trap_sync_regs tf epc s) (current_proc s)) =
       \<lparr>x1 = tf_get s tf 0, x5 = tf_get s tf 1, x6 = tf_get s tf 2, x7 = tf_get s tf 3,
        x10 = tf_get s tf 4, x11 = tf_get s tf 5, x12 = tf_get s tf 6, x13 = tf_get s tf 7,
        x14 = tf_get s tf 8, x15 = tf_get s tf 9, x16 = tf_get s tf 10, x17 = tf_get s tf 11,
        sp = tf + 128, sepc = epc, mstatus = csr_mstatus s\<rparr>"
  "(trap_sync_regs tf epc s)\<lparr>pcbs := pcbs s\<rparr> = s"
  by (simp_all add: trap_sync_regs_def Let_def pcb_upd_def)

text \<open>
  Claim C9, with what happens to the PCB.  An \<open>ecall\<close> (cause 8 or 11) whose \<open>a7\<close> slot holds
  \<open>SYS_EXEC\<close> always returns.  Before the test for \<open>SYS_EXEC\<close> the dispatcher copies the trap
  frame into \<open>regstat\<close> of the current PCB (lines 189 to 209): all of \<open>regstat\<close> is
  overwritten, with the twelve saved registers, \<open>sepc = mepc\<close>, \<open>sp = tf + 128\<close> and
  \<open>mstatus\<close>.  If the lookup gives an entry point, the \<open>a0\<close> and \<open>a1\<close> slots of the trap frame
  hold 0 and \<open>mepc\<close> is the entry point.  Memory is unchanged outside the sixteen bytes of
  these two slots (the frame lies on the stack of the process), as are the allocator and
  the root table, every kernel variable other than \<open>mepc\<close>, every PCB other than the current
  one, and every field of the current PCB other than \<open>regstat\<close>.  If the lookup fails, the
  \<open>a0\<close> slot holds \<open>-1\<close> and \<open>mepc\<close> is advanced by 4.
\<close>

theorem trap_exec:
  assumes "csr_mcause s = 8 \<or> csr_mcause s = 11" and "tf_get s tf 11 = env_SYS_EXEC e"
  shows "\<exists>s'. trap_handler_c e tf s = Some s' \<and>
           (exec_entry e tf s \<noteq> - 1 \<longrightarrow>
              tf_get s' tf 4 = 0 \<and> tf_get s' tf 5 = 0 \<and> csr_mepc s' = exec_entry e tf s \<and>
              (\<forall>x. 16 \<le> x - (tf + 32) \<longrightarrow> mem (vm s') x = mem (vm s) x) \<and>
              (vm s')\<lparr>mem := mem (vm s)\<rparr> = vm s \<and>
              s'\<lparr>vm := vm s, csr_mepc := csr_mepc s, pcbs := pcbs s\<rparr> = s \<and>
              (\<forall>p. p \<noteq> current_proc s \<longrightarrow> pcbs s' p = pcbs s p) \<and>
              (\<forall>p r. (pcbs s' p)\<lparr>regstat := r\<rparr> = (pcbs s p)\<lparr>regstat := r\<rparr>)) \<and>
           (exec_entry e tf s = - 1 \<longrightarrow>
              tf_get s' tf 4 = - 1 \<and> csr_mepc s' = csr_mepc s + 4) \<and>
           (current_proc s = 0 \<longrightarrow> pcbs s' = pcbs s) \<and>
           (current_proc s \<noteq> 0 \<longrightarrow>
              regstat (pcbs s' (current_proc s)) =
                \<lparr>x1 = tf_get s tf 0, x5 = tf_get s tf 1, x6 = tf_get s tf 2, x7 = tf_get s tf 3,
                 x10 = tf_get s tf 4, x11 = tf_get s tf 5, x12 = tf_get s tf 6,
                 x13 = tf_get s tf 7, x14 = tf_get s tf 8, x15 = tf_get s tf 9,
                 x16 = tf_get s tf 10, x17 = tf_get s tf 11,
                 sp = tf + 128, sepc = csr_mepc s, mstatus = csr_mstatus s\<rparr>)"
proof (cases "exec_entry e tf s = - 1")
  case True
  show ?thesis
    unfolding trap_exec_missing[OF assms True] using True
    by (simp add: tf_slots tf_get_mepc) (simp add: tf_set_def trap_sync_regs_pcbs)
next
  case False
  have m: "16 \<le> x - (tf + 32) \<Longrightarrow>
           mem (vm (tf_set tf 5 0 (tf_set tf 4 0 (trap_sync_regs tf (csr_mepc s) s)))) x = mem (vm s) x"
    for x
  proof -
    assume x: "16 \<le> x - (tf + 32)"
    show ?thesis
      by (simp add: tf_set_def trap_sync_regs_frame store64_far[of "tf + 40" "tf + 32", OF _ x])
  qed
  have f: "(tf_set tf 5 0 (tf_set tf 4 0 (trap_sync_regs tf (csr_mepc s) s)))
             \<lparr>csr_mepc := exec_entry e tf s, vm := vm s, csr_mepc := csr_mepc s, pcbs := pcbs s\<rparr> = s"
  proof -
    have "(tf_set tf 5 0 (tf_set tf 4 0 (trap_sync_regs tf (csr_mepc s) s)))
             \<lparr>csr_mepc := exec_entry e tf s, vm := vm s, csr_mepc := csr_mepc s, pcbs := pcbs s\<rparr> =
          (trap_sync_regs tf (csr_mepc s) s)\<lparr>pcbs := pcbs s\<rparr>"
      by (simp add: tf_set_def trap_sync_regs_frame[symmetric])
    then show ?thesis by (simp add: trap_sync_regs_pcbs)
  qed
  have p: "pcbs (tf_set tf 5 0 (tf_set tf 4 0 (trap_sync_regs tf (csr_mepc s) s))) =
           pcbs (trap_sync_regs tf (csr_mepc s) s)"
    by (simp add: tf_set_def)
  show ?thesis
    unfolding trap_exec_found[OF assms False] using False m f
    by (simp add: tf_slots tf_get_mepc trap_sync_regs_frame p trap_sync_regs_pcbs)
       (simp add: tf_set_def trap_sync_regs_frame)
qed

lemma k_exec_facts:
  "csr_mcause k_exec = 8" "csr_mepc k_exec = 0x80200010"
  "tf_get k_exec 0x80010000 11 = env_SYS_EXEC (e_demo entry)"
  "exec_entry (e_demo entry) 0x80010000 k_exec = entry"
  by (simp_all add: k_exec_def k_boot_def e_demo_def exec_entry_def tf_get_def load64_store64_same)

lemma k_exec_current:
  "current_proc k_exec = 0x80008000" "pcbs k_exec 0x80008000 = pcb_zero"
  by (simp_all add: k_exec_def k_boot_def)

theorem trap_exec_witness:
  "(\<exists>s'. trap_handler_c (e_demo 0x80400000) 0x80010000 k_exec = Some s' \<and>
         tf_get s' 0x80010000 4 = 0 \<and> tf_get s' 0x80010000 5 = 0 \<and> csr_mepc s' = 0x80400000 \<and>
         sepc (regstat (pcbs s' 0x80008000)) = 0x80200010 \<and>
         sp (regstat (pcbs s' 0x80008000)) = 0x80010080) \<and>
   (\<exists>s'. trap_handler_c (e_demo (- 1)) 0x80010000 k_exec = Some s' \<and>
         tf_get s' 0x80010000 4 = - 1 \<and> csr_mepc s' = 0x80200014)"
  using trap_exec[where s = k_exec and tf = "0x80010000" and e = "e_demo 0x80400000"]
    trap_exec[where s = k_exec and tf = "0x80010000" and e = "e_demo (- 1)"]
  by (auto simp add: k_exec_facts k_exec_current)

text \<open>
  Claim C9 as stated fails on the PCB.  The exec \<open>ecall\<close> of the process at \<open>0x80008000\<close>, taken
  at \<open>mepc = 0x80200010\<close> with the frame at \<open>0x80010000\<close>, finds the program and returns; the
  saved \<open>sepc\<close> and \<open>sp\<close> of the caller's PCB were 0 and are now \<open>0x80200010\<close> and \<open>0x80010080\<close>.
\<close>

theorem trap_exec_pcb_counterexample:
  "\<exists>s'. trap_handler_c (e_demo 0x80400000) 0x80010000 k_exec = Some s' \<and>
        csr_mepc s' = 0x80400000 \<and>
        sepc (regstat (pcbs k_exec (current_proc k_exec))) = 0 \<and>
        sepc (regstat (pcbs s' (current_proc k_exec))) = 0x80200010 \<and>
        sp (regstat (pcbs k_exec (current_proc k_exec))) = 0 \<and>
        sp (regstat (pcbs s' (current_proc k_exec))) = 0x80010080 \<and>
        pcbs s' (current_proc k_exec) \<noteq> pcbs k_exec (current_proc k_exec)"
proof -
  have a: "csr_mcause k_exec = 8 \<or> csr_mcause k_exec = 11" by (simp add: k_exec_facts)
  have n: "exec_entry (e_demo 0x80400000) 0x80010000 k_exec \<noteq> - 1" by (simp add: k_exec_facts)
  have r: "regstat (pcbs k_exec 0x80008000) = regs_zero" by (simp add: k_exec_current pcb_zero_def)
  have c: "current_proc k_exec \<noteq> 0" by (simp add: k_exec_current)
  have q: "sepc (regstat (pcbs (trap_sync_regs 0x80010000 0x80200010 k_exec) 0x80008000)) = 0x80200010"
    "sp (regstat (pcbs (trap_sync_regs 0x80010000 0x80200010 k_exec) 0x80008000)) = 0x80010080"
    using trap_sync_regs_pcbs(3)[OF c, of "0x80010000" "0x80200010"] by (simp_all add: k_exec_current)
  then have "pcbs (trap_sync_regs 0x80010000 0x80200010 k_exec) 0x80008000 \<noteq> pcbs k_exec 0x80008000"
    using r by (auto simp add: regs_zero_def)
  then show ?thesis
    unfolding trap_exec_found[OF a k_exec_facts(3) n] using q r
    by (simp add: k_exec_facts k_exec_current tf_set_def regs_zero_def)
qed

section \<open>Linked lists of PCBs\<close>

lemma plist_cong:
  "plist h p xs \<Longrightarrow> (\<And>x. x \<in> set xs \<Longrightarrow> pnext (h' x) = pnext (h x)) \<Longrightarrow> plist h' p xs"
  by (induction xs arbitrary: p) auto

lemma plist_nonzero: "plist h p xs \<Longrightarrow> 0 \<notin> set xs"
  by (induction xs arbitrary: p) auto

lemma release_pcb_frame:
  "pcbs (release_pcb p s) = pcbs s" "next_pid (release_pcb p s) = next_pid s"
  "zombie_list (release_pcb p s) = zombie_list s" "blocked_list (release_pcb p s) = blocked_list s"
  "rq (release_pcb p s) = rq s" "current_proc (release_pcb p s) = current_proc s"
  by (simp_all add: release_pcb_def Let_def)

lemma free_pcb_resources_next_pid: "next_pid (free_pcb_resources p s) = next_pid s"
  by (simp add: free_pcb_resources_def release_pcb_frame)

lemma pid_reuse_frame:
  "pcbs (pid_reuse p s) = pcbs s" "next_pid (pid_reuse p s) = pid_after (next_pid s) p"
  by (simp_all add: pid_reuse_def pid_after_def)

section \<open>The pid counter\<close>

lemma zombies_free_loop_next_pid:
  "plist (pcbs s) cur zs \<Longrightarrow> distinct zs \<Longrightarrow> prev \<notin> set zs \<Longrightarrow>
   \<exists>s'. zombies_free_loop prev cur s = Some s' \<and>
        next_pid s' = foldl pid_after (next_pid s)
                        (map (\<lambda>z. pid (pcbs s z)) (filter (\<lambda>z. ppid (pcbs s z) = 0) zs))"
proof (induction zs arbitrary: prev cur s)
  case Nil
  then show ?case by (simp add: zombies_free_loop.simps)
next
  case (Cons z zs)
  from Cons.prems have c: "cur = z" "z \<noteq> 0" and t: "plist (pcbs s) (pnext (pcbs s z)) zs"
    and d: "distinct zs" "z \<notin> set zs" "prev \<notin> set zs" by auto
  let ?nxt = "pnext (pcbs s z)"
  show ?case
  proof (cases "ppid (pcbs s z) = 0")
    case True
    define s1 where "s1 = pid_reuse (pid (pcbs s z)) (release_pcb z
        (if prev \<noteq> 0 then pcb_upd prev (\<lambda>c. c\<lparr>pnext := ?nxt\<rparr>) s else s\<lparr>zombie_list := ?nxt\<rparr>))"
    have h: "pcbs s1 = (if prev \<noteq> 0 then (pcbs s)(prev := (pcbs s prev)\<lparr>pnext := ?nxt\<rparr>) else pcbs s)"
      by (simp add: s1_def pid_reuse_frame release_pcb_frame pcb_upd_def)
    have f: "pid (pcbs s1 x) = pid (pcbs s x)" "ppid (pcbs s1 x) = ppid (pcbs s x)" for x
      by (simp_all add: h)
    have n: "next_pid s1 = pid_after (next_pid s) (pid (pcbs s z))"
      by (simp add: s1_def pid_reuse_frame release_pcb_frame pcb_upd_def)
    have "plist (pcbs s1) ?nxt zs"
      by (rule plist_cong[OF t]) (use d in \<open>auto simp add: h\<close>)
    from Cons.IH[OF this d(1) d(3)] obtain s' where
      s': "zombies_free_loop prev ?nxt s1 = Some s'"
          "next_pid s' = foldl pid_after (next_pid s1)
                        (map (\<lambda>z. pid (pcbs s1 z)) (filter (\<lambda>z. ppid (pcbs s1 z) = 0) zs))"
      by blast
    have "zombies_free_loop prev cur s = zombies_free_loop prev ?nxt s1"
      using c True by (subst zombies_free_loop.simps) (simp add: Let_def s1_def)
    then show ?thesis using s' True by (simp add: f n)
  next
    case False
    from Cons.IH[OF t d(1) d(2)] obtain s' where
      s': "zombies_free_loop z ?nxt s = Some s'"
          "next_pid s' = foldl pid_after (next_pid s)
                        (map (\<lambda>z. pid (pcbs s z)) (filter (\<lambda>z. ppid (pcbs s z) = 0) zs))"
      by blast
    have "zombies_free_loop prev cur s = zombies_free_loop z ?nxt s"
      using c False by (subst zombies_free_loop.simps) (simp add: Let_def)
    then show ?thesis using s' False by simp
  qed
qed

lemma wait_scan_found:
  "plist (pcbs s) cur (xs @ z # ys) \<Longrightarrow> \<forall>x\<in>set xs. ppid (pcbs s x) \<noteq> my \<Longrightarrow>
   ppid (pcbs s z) = my \<Longrightarrow>
   \<exists>s'. wait_scan my prev cur s = Some (Some (pid (pcbs s z), s')) \<and>
        next_pid s' = pid_after (next_pid s) (pid (pcbs s z))"
proof (induction xs arbitrary: prev cur)
  case Nil
  then have c: "cur = z" "z \<noteq> 0" by auto
  show ?case using Nil(3) c
    by (subst wait_scan.simps)
       (simp add: Let_def pid_reuse_frame release_pcb_frame intr_on_def pcb_upd_def)
next
  case (Cons x xs)
  then have c: "cur = x" "x \<noteq> 0" "ppid (pcbs s x) \<noteq> my"
    and t: "plist (pcbs s) (pnext (pcbs s x)) (xs @ z # ys)" by auto
  have "wait_scan my prev cur s = wait_scan my x (pnext (pcbs s x)) s"
    using c by (subst wait_scan.simps) simp
  then show ?case using Cons.IH[OF t _ Cons.prems(3), of x] Cons.prems(2) by auto
qed

lemma kill_loops_next_pid:
  "kill_ready_loop p prev cur s = Some (Some s') \<Longrightarrow> next_pid s' = next_pid s"
  "kill_blocked_loop p prev cur s = Some (Some s') \<Longrightarrow> next_pid s' = next_pid s"
  "kill_zombie_loop p prev cur s = Some (Some s') \<Longrightarrow> next_pid s' = next_pid s"
proof -
  assume a: "kill_ready_loop p prev cur s = Some (Some s')"
  show "next_pid s' = next_pid s"
    by (rule kill_ready_loop.raw_induct[where
          P = "\<lambda>_ _ _ s r. case r of Some s' \<Rightarrow> next_pid s' = next_pid s | None \<Rightarrow> True",
          OF _ a, simplified])
       (auto simp add: Let_def free_pcb_resources_next_pid pcb_upd_def split: if_splits)
next
  assume a: "kill_blocked_loop p prev cur s = Some (Some s')"
  show "next_pid s' = next_pid s"
    by (rule kill_blocked_loop.raw_induct[where
          P = "\<lambda>_ _ _ s r. case r of Some s' \<Rightarrow> next_pid s' = next_pid s | None \<Rightarrow> True",
          OF _ a, simplified])
       (auto simp add: Let_def free_pcb_resources_next_pid pcb_upd_def split: if_splits)
next
  assume a: "kill_zombie_loop p prev cur s = Some (Some s')"
  show "next_pid s' = next_pid s"
    by (rule kill_zombie_loop.raw_induct[where
          P = "\<lambda>_ _ _ s r. case r of Some s' \<Rightarrow> next_pid s' = next_pid s | None \<Rightarrow> True",
          OF _ a, simplified])
       (auto simp add: Let_def free_pcb_resources_next_pid pcb_upd_def split: if_splits)
qed

lemma proc_kill_search_next_pid:
  assumes "proc_kill_search p s = Some (r, s')"
  shows "next_pid s' = next_pid s"
  using assms kill_loops_next_pid[of p 0 _ s]
  by (auto simp add: proc_kill_search_def intr_on_def split: bind_splits option.splits if_splits)

lemma proc_kill_next_pid:
  "proc_kill sw p s = Some (r, s') \<Longrightarrow> next_pid s' = next_pid s"
  using proc_kill_search_next_pid[of p "intr_off s" r s']
  by (auto simp add: proc_kill_Some intr_on_def intr_off_def split: if_splits)

lemma plist_unique: "plist h p xs \<Longrightarrow> plist h p ys \<Longrightarrow> xs = ys"
proof (induction xs arbitrary: p ys)
  case Nil
  then show ?case by (cases ys) auto
next
  case (Cons x xs)
  then show ?case by (cases ys) auto
qed

lemma plist_suffix: "plist h p (xs @ y # ys) \<Longrightarrow> plist h y (y # ys)"
  by (induction xs arbitrary: p) auto

lemma plist_distinct: "plist h p xs \<Longrightarrow> distinct xs"
proof (induction xs arbitrary: p)
  case Nil
  then show ?case by simp
next
  case (Cons x xs)
  then have t: "plist h (pnext (h x)) xs" and x: "plist h x (x # xs)" by auto
  have "x \<notin> set xs"
  proof
    assume "x \<in> set xs"
    then obtain as bs where "xs = as @ x # bs" by (auto simp add: in_set_conv_decomp)
    with x have "plist h x ((x # as) @ x # bs)" by simp
    from plist_suffix[OF this] x have "x # bs = x # xs" by (rule plist_unique)
    with \<open>xs = as @ x # bs\<close> show False by simp
  qed
  with Cons.IH[OF t] show ?case by simp
qed

lemma kill_ready_head:
  "cur \<noteq> 0 \<Longrightarrow> pid (pcbs s cur) = p \<Longrightarrow> \<exists>s'. kill_ready_loop p 0 cur s = Some (Some s')"
  by (subst kill_ready_loop.simps) (simp add: Let_def)

lemma k_ready_kill: "\<exists>s'. proc_kill sw_never 2 k_ready = Some (0, s')"
proof -
  have f: "head (rq (intr_off k_ready)) = 0x80009000" "ready_queue (intr_off k_ready) \<noteq> 0"
    "pid (pcbs (intr_off k_ready) 0x80009000) = 2"
    "idle_proc k_ready = 0x80007000" "pid (pcbs k_ready 0x80007000) = 0"
    "current_proc k_ready = 0x80008000" "pid (pcbs k_ready 0x80008000) = 1"
    by (simp_all add: k_ready_def k_boot_def intr_off_def pcb_zero_def)
  from kill_ready_head[of "0x80009000" "intr_off k_ready" 2] f obtain t where
    "kill_ready_loop 2 0 0x80009000 (intr_off k_ready) = Some (Some t)" by auto
  then show ?thesis
    by (simp add: proc_kill_Some f proc_kill_search_def word_sless_alt)
qed

text \<open>
  The two reapers do what the comment on \<open>next_pid\<close> says (lines 36 and 37: "try to decrement
  by one on process destruction to reuse the last PID").  \<open>proc_wait_and_reap\<close>, called while
  a child of the caller is on the zombie list, reaps the first such child and returns its
  pid; \<open>next_pid\<close> is then decremented by one if that pid equals \<open>next_pid - 1\<close> and
  \<open>next_pid > 1\<close>, and unchanged otherwise (\<open>pid_after\<close>).  \<open>zombies_free\<close> does the same for each
  orphan of the zombie list in turn.
\<close>

lemma reapers_next_pid:
  "current_proc s \<noteq> 0 \<Longrightarrow> plist (pcbs s) (zombie_list s) (xs @ z # ys) \<Longrightarrow>
   \<forall>x\<in>set xs. ppid (pcbs s x) \<noteq> pid (pcbs s (current_proc s)) \<Longrightarrow>
   ppid (pcbs s z) = pid (pcbs s (current_proc s)) \<Longrightarrow>
   \<exists>s'. proc_wait_and_reap sw s = Some (pid (pcbs s z), s') \<and>
        next_pid s' = pid_after (next_pid s) (pid (pcbs s z))"
  "plist (pcbs s) (zombie_list s) zs \<Longrightarrow>
   \<exists>s'. zombies_free s = Some s' \<and>
        next_pid s' = foldl pid_after (next_pid s)
                        (map (\<lambda>z. pid (pcbs s z)) (filter (\<lambda>z. ppid (pcbs s z) = 0) zs))"
proof -
  assume a: "current_proc s \<noteq> 0" "plist (pcbs s) (zombie_list s) (xs @ z # ys)"
    "\<forall>x\<in>set xs. ppid (pcbs s x) \<noteq> pid (pcbs s (current_proc s))"
    "ppid (pcbs s z) = pid (pcbs s (current_proc s))"
  let ?t = "intr_off s"
  have i: "pcbs ?t = pcbs s" "zombie_list ?t = zombie_list s" "current_proc ?t = current_proc s"
    "next_pid ?t = next_pid s"
    by (simp_all add: intr_off_def)
  from a wait_scan_found[of ?t "zombie_list s" xs z ys "pid (pcbs s (current_proc s))" 0]
  obtain s' where s': "wait_scan (pid (pcbs s (current_proc s))) 0 (zombie_list s) ?t =
      Some (Some (pid (pcbs s z), s'))" "next_pid s' = pid_after (next_pid s) (pid (pcbs s z))"
    by (auto simp add: i)
  have "proc_wait_and_reap sw s = Some (pid (pcbs s z), s')"
    using a s'(1) by (simp add: proc_wait_and_reap_def) (subst wait_loop.simps, simp add: Let_def i)
  with s'(2) show "\<exists>s'. proc_wait_and_reap sw s = Some (pid (pcbs s z), s') \<and>
            next_pid s' = pid_after (next_pid s) (pid (pcbs s z))" by blast
next
  assume a: "plist (pcbs s) (zombie_list s) zs"
  from plist_nonzero[OF a] zombies_free_loop_next_pid[OF a plist_distinct[OF a], of 0]
  show "\<exists>s'. zombies_free s = Some s' \<and>
            next_pid s' = foldl pid_after (next_pid s)
                            (map (\<lambda>z. pid (pcbs s z)) (filter (\<lambda>z. ppid (pcbs s z) = 0) zs))"
    by (simp add: zombies_free_def)
qed

lemma k_zombie_facts:
  "current_proc (k_zombie pp) = 0x80008000" "zombie_list (k_zombie pp) = 0x80009000"
  "next_pid (k_zombie pp) = 3" "pid (pcbs (k_zombie pp) 0x80008000) = 1"
  "pid (pcbs (k_zombie pp) 0x80009000) = 2" "ppid (pcbs (k_zombie pp) 0x80009000) = pp"
  "pnext (pcbs (k_zombie pp) 0x80009000) = 0"
  by (simp_all add: k_zombie_def k_boot_def pcb_zero_def)

lemma pid_after_3_2: "pid_after 3 2 = 2"
  by (simp add: pid_after_def word_sless_alt)

text \<open>Reaping the zombie with pid 2 while \<open>next_pid\<close> is 3 leaves \<open>next_pid\<close> at 2, by either
  reaper.\<close>

lemma reapers_next_pid_example:
  "(\<exists>s'. proc_wait_and_reap sw_never (k_zombie 1) = Some (2, s') \<and> next_pid s' = 2) \<and>
   (\<exists>s'. zombies_free (k_zombie 0) = Some s' \<and> next_pid s' = 2)"
proof (intro conjI)
  show "\<exists>s'. proc_wait_and_reap sw_never (k_zombie 1) = Some (2, s') \<and> next_pid s' = 2"
    using reapers_next_pid(1)[where s = "k_zombie 1" and xs = "[]" and z = "0x80009000"
        and ys = "[]" and sw = sw_never]
    by (simp add: k_zombie_facts pid_after_3_2)
  show "\<exists>s'. zombies_free (k_zombie 0) = Some s' \<and> next_pid s' = 2"
    using reapers_next_pid(2)[where s = "k_zombie 0" and zs = "[0x80009000]"]
    by (simp add: k_zombie_facts pid_after_3_2)
qed

text \<open>
  Claim C7 fails for \<open>proc_kill\<close>.  It destroys a process through \<open>free_pcb_resources\<close>, which
  leaves out the decrement that the comment on \<open>next_pid\<close> announces and that both reapers
  carry out.  \<open>proc_kill\<close> of the ready process with pid 2 while \<open>next_pid\<close> is 3: the process is
  destroyed (the call returns 0), its pid is \<open>next_pid - 1\<close> with \<open>next_pid > 1\<close>, so that a reaper
  would leave \<open>next_pid\<close> at 2, and \<open>next_pid\<close> is still 3.
\<close>

theorem proc_kill_keeps_next_pid:
  "\<exists>s'. proc_kill sw_never 2 k_ready = Some (0, s') \<and>
        head (rq k_ready) = 0x80009000 \<and> pid (pcbs k_ready 0x80009000) = 2 \<and>
        next_pid k_ready = 3 \<and> pid_after (next_pid k_ready) 2 = 2 \<and> next_pid s' = 3"
proof -
  from k_ready_kill obtain t where t: "proc_kill sw_never 2 k_ready = Some (0, t)" by blast
  have "head (rq k_ready) = 0x80009000" "pid (pcbs k_ready 0x80009000) = 2" "next_pid k_ready = 3"
    by (simp_all add: k_ready_def)
  with t proc_kill_next_pid[OF t] show ?thesis by (simp add: pid_after_3_2)
qed

section \<open>Exit and the wake-up of the parent\<close>

lemma plist_last_notin:
  assumes "plist h q (x # rs)" "rs \<noteq> []"
  shows "x \<noteq> last rs"
  using plist_distinct[OF assms(1)] assms(2) by auto

lemma plist_snoc:
  assumes "plist h q rs" "rs \<noteq> []" "p \<notin> set rs" "p \<noteq> 0"
    and "pnext (h' p) = 0" "pnext (h' (last rs)) = p"
    and "\<And>x. x \<in> set rs \<Longrightarrow> x \<noteq> last rs \<Longrightarrow> pnext (h' x) = pnext (h x)"
  shows "plist h' q (rs @ [p])"
  using assms
proof (induction rs arbitrary: q)
  case Nil
  then show ?case by simp
next
  case (Cons x rs)
  show ?case
  proof (cases "rs = []")
    case True
    then show ?thesis using Cons.prems by simp
  next
    case False
    have n: "x \<noteq> last rs" using plist_last_notin[OF Cons.prems(1) False] .
    have "plist h' (pnext (h x)) (rs @ [p])"
      using Cons.prems False by (intro Cons.IH) auto
    moreover have "pnext (h' x) = pnext (h x)" using Cons.prems(7)[of x] n False by simp
    ultimately show ?thesis using Cons.prems(1) by simp
  qed
qed

lemma plist_unlink:
  assumes "plist h b (xs @ p # ys)" "xs \<noteq> []"
    and "pnext (h' (last xs)) = pnext (h p)"
    and "\<And>x. x \<in> set xs \<union> set ys \<Longrightarrow> x \<noteq> last xs \<Longrightarrow> pnext (h' x) = pnext (h x)"
  shows "plist h' b (xs @ ys)"
  using assms
proof (induction xs arbitrary: b)
  case Nil
  then show ?case by simp
next
  case (Cons x xs)
  from plist_distinct[OF Cons.prems(1)] have d: "distinct (x # xs @ p # ys)" by simp
  show ?case
  proof (cases "xs = []")
    case True
    with Cons.prems(1) have t: "plist h (pnext (h p)) ys" and b: "b = x" "x \<noteq> 0" by auto
    have "plist h' (pnext (h p)) ys"
      by (rule plist_cong[OF t]) (use Cons.prems(4) d True in auto)
    then show ?thesis using True b Cons.prems(3) by simp
  next
    case False
    have n: "x \<noteq> last xs" using d False by auto
    have "plist h' (pnext (h x)) (xs @ ys)"
      using Cons.prems False by (intro Cons.IH) auto
    moreover have "pnext (h' x) = pnext (h x)" using Cons.prems(4)[of x] n False by simp
    ultimately show ?thesis using Cons.prems(1) by simp
  qed
qed

text \<open>The search stops at the first PCB with the pid; nothing is written before.\<close>

lemma exit_wake_loop_found:
  assumes "plist (pcbs s) cur (xs @ p # ys)" "\<forall>x\<in>set xs. pid (pcbs s x) \<noteq> pp" "pid (pcbs s p) = pp"
  shows "exit_wake_loop pp prev cur s =
         Some (enqueue p (pcb_upd p (\<lambda>c. c\<lparr>pstat := READY\<rparr>)
           (if (if xs = [] then prev else last xs) \<noteq> 0
            then pcb_upd (if xs = [] then prev else last xs) (\<lambda>c. c\<lparr>pnext := pnext (pcbs s p)\<rparr>) s
            else s\<lparr>blocked_list := pnext (pcbs s p)\<rparr>)))"
  using assms
proof (induction xs arbitrary: prev cur)
  case Nil
  then have c: "cur = p" "p \<noteq> 0" by auto
  show ?case using c Nil(3) by (subst exit_wake_loop.simps) (simp add: Let_def)
next
  case (Cons x xs)
  then have c: "cur = x" "x \<noteq> 0" "pid (pcbs s x) \<noteq> pp"
    and t: "plist (pcbs s) (pnext (pcbs s x)) (xs @ p # ys)" by auto
  have "exit_wake_loop pp prev cur s = exit_wake_loop pp x (pnext (pcbs s x)) s"
    using c by (subst exit_wake_loop.simps) simp
  also have "\<dots> = Some (enqueue p (pcb_upd p (\<lambda>c. c\<lparr>pstat := READY\<rparr>)
           (if (if xs = [] then x else last xs) \<noteq> 0
            then pcb_upd (if xs = [] then x else last xs) (\<lambda>c. c\<lparr>pnext := pnext (pcbs s p)\<rparr>) s
            else s\<lparr>blocked_list := pnext (pcbs s p)\<rparr>)))"
    using Cons.prems by (intro Cons.IH[OF t]) auto
  finally show ?case by simp
qed

lemma enqueue_spec:
  assumes q: "ready_queue s \<noteq> 0" and p: "p \<noteq> 0" "p \<notin> set rs"
    and r: "plist (pcbs s) (head (rq s)) rs" "tail (rq s) = (if rs = [] then 0 else last rs)"
  shows "plist (pcbs (enqueue p s)) (head (rq (enqueue p s))) (rs @ [p])"
    and "tail (rq (enqueue p s)) = p"
    and "count (rq (enqueue p s)) = count (rq s) + 1"
    and "x \<noteq> p \<Longrightarrow> x \<notin> set rs \<Longrightarrow> pcbs (enqueue p s) x = pcbs s x"
    and "(pcbs (enqueue p s) x)\<lparr>pnext := n\<rparr> = (pcbs s x)\<lparr>pnext := n\<rparr>"
    and "blocked_list (enqueue p s) = blocked_list s"
    and "zombie_list (enqueue p s) = zombie_list s"
    and "current_proc (enqueue p s) = current_proc s"
proof -
  show "tail (rq (enqueue p s)) = p" "count (rq (enqueue p s)) = count (rq s) + 1"
    "(pcbs (enqueue p s) x)\<lparr>pnext := n\<rparr> = (pcbs s x)\<lparr>pnext := n\<rparr>"
    "blocked_list (enqueue p s) = blocked_list s" "zombie_list (enqueue p s) = zombie_list s"
    "current_proc (enqueue p s) = current_proc s"
    using q p by (simp_all add: enqueue_def Let_def pcb_upd_def)
  show "x \<noteq> p \<Longrightarrow> x \<notin> set rs \<Longrightarrow> pcbs (enqueue p s) x = pcbs s x"
    using q p r by (auto simp add: enqueue_def Let_def pcb_upd_def)
  show "plist (pcbs (enqueue p s)) (head (rq (enqueue p s))) (rs @ [p])"
  proof (cases "rs = []")
    case True
    then show ?thesis using q p r by (simp add: enqueue_def Let_def pcb_upd_def)
  next
    case False
    have t: "last rs \<noteq> 0" "last rs \<noteq> p" using plist_nonzero[OF r(1)] False p(2)
      by (metis last_in_set)+
    have h: "head (rq (enqueue p s)) = head (rq s)"
      using q p r False t by (simp add: enqueue_def Let_def pcb_upd_def)
    show ?thesis unfolding h
      by (rule plist_snoc[OF r(1) False p(2) p(1)])
         (use q p r False t in \<open>auto simp add: enqueue_def Let_def pcb_upd_def\<close>)
  qed
qed

lemma enqueue_pstat: "pstat (pcbs (enqueue p s) x) = pstat (pcbs s x)"
  by (simp add: enqueue_def Let_def pcb_upd_def)

lemma exit_push_zombie_frame:
  "pcbs (exit_push_zombie s) =
     (pcbs s)(current_proc s := (pcbs s (current_proc s))\<lparr>pstat := TERMINATED, pnext := zombie_list s\<rparr>)"
  "zombie_list (exit_push_zombie s) = current_proc s"
  "blocked_list (exit_push_zombie s) = blocked_list s"
  "rq (exit_push_zombie s) = rq s"
  "ready_queue (exit_push_zombie s) = ready_queue s"
  "current_proc (exit_push_zombie s) = current_proc s"
  by (simp_all add: exit_push_zombie_def Let_def pcb_upd_def)

lemma intr_off_frame:
  "pcbs (intr_off s) = pcbs s" "zombie_list (intr_off s) = zombie_list s"
  "blocked_list (intr_off s) = blocked_list s" "rq (intr_off s) = rq s"
  "ready_queue (intr_off s) = ready_queue s" "current_proc (intr_off s) = current_proc s"
  by (simp_all add: intr_off_def)

lemma proc_exit_lists_spec:
  assumes c: "c = current_proc s" "c \<noteq> 0" "ppid (pcbs s c) \<noteq> 0"
    and b: "plist (pcbs s) (blocked_list s) (xs @ p # ys)" "pid (pcbs s p) = ppid (pcbs s c)"
      "\<forall>x\<in>set xs. pid (pcbs s x) \<noteq> ppid (pcbs s c)"
    and r: "ready_queue s \<noteq> 0" "plist (pcbs s) (head (rq s)) rs"
      "tail (rq s) = (if rs = [] then 0 else last rs)"
    and z: "plist (pcbs s) (zombie_list s) zs"
    and d: "c \<notin> set (xs @ p # ys) \<union> set rs \<union> set zs" "set rs \<inter> set (xs @ p # ys) = {}"
      "set zs \<inter> set (xs @ p # ys) = {}" "set zs \<inter> set rs = {}"
  shows "\<exists>s'. proc_exit_lists s = Some s' \<and>
           zombie_list s' = c \<and> pstat (pcbs s' c) = TERMINATED \<and>
           plist (pcbs s') (zombie_list s') (c # zs) \<and>
           plist (pcbs s') (blocked_list s') (xs @ ys) \<and> pstat (pcbs s' p) = READY \<and>
           plist (pcbs s') (head (rq s')) (rs @ [p]) \<and> tail (rq s') = p \<and>
           count (rq s') = count (rq s) + 1"
proof -
  define z where "z = exit_push_zombie s"
  define pv where "pv = (if xs = [] then 0 else last xs)"
  define u where "u = (if pv \<noteq> 0 then pcb_upd pv (\<lambda>c. c\<lparr>pnext := pnext (pcbs z p)\<rparr>) z
                       else z\<lparr>blocked_list := pnext (pcbs z p)\<rparr>)"
  define w where "w = pcb_upd p (\<lambda>c. c\<lparr>pstat := READY\<rparr>) u"
  define s' where "s' = enqueue p w"
  note zf = exit_push_zombie_frame[of s, folded z_def c(1)]
  from plist_distinct[OF b(1)] have dl: "distinct (xs @ p # ys)" .
  from plist_nonzero[OF b(1)] have nz: "0 \<notin> set (xs @ p # ys)" .
  have p0: "p \<noteq> 0" using nz by auto
  have cp: "c \<noteq> p" using d(1) by auto
  have pr: "p \<notin> set rs" using d(2) by auto
  have pvl: "xs \<noteq> [] \<Longrightarrow> last xs = pv" by (simp add: pv_def)
  have pvx: "xs \<noteq> [] \<Longrightarrow> pv \<in> set xs" by (simp add: pv_def)
  have "xs \<noteq> [] \<Longrightarrow> last xs \<noteq> 0" using nz by (metis UnCI last_in_set set_append)
  then have pv0: "(pv \<noteq> 0) = (xs \<noteq> [])" by (auto simp add: pv_def)
  have "pv \<noteq> p \<and> pv \<noteq> c \<and> pv \<notin> set rs \<and> pv \<notin> set ys \<and> pv \<notin> set zs"
  proof (cases "xs = []")
    case True
    then have "pv = 0" by (simp add: pv_def)
    then show ?thesis using p0 c(2) nz plist_nonzero[OF r(2)] plist_nonzero[OF z] by auto
  next
    case False
    from pvx[OF this] show ?thesis using dl d by auto
  qed
  then have pvn: "pv \<noteq> p" "pv \<noteq> c" "pv \<notin> set rs" "pv \<notin> set ys" "pv \<notin> set zs"
    by simp_all
  have hz: "pcbs z x = (if x = c then (pcbs s c)\<lparr>pstat := TERMINATED, pnext := zombie_list s\<rparr>
                         else pcbs s x)" for x
    by (simp add: zf)
  have zp: "pnext (pcbs z p) = pnext (pcbs s p)" using cp by (simp add: hz)
  have hu: "pcbs u x = (if xs \<noteq> [] \<and> x = pv then (pcbs z x)\<lparr>pnext := pnext (pcbs s p)\<rparr> else pcbs z x)" for x
    using cp by (simp add: u_def pcb_upd_def pv0 zf)
  have hw: "pcbs w x = (if x = p then (pcbs u p)\<lparr>pstat := READY\<rparr> else pcbs u x)" for x
    by (simp add: w_def pcb_upd_def)
  have fw: "rq w = rq s" "ready_queue w = ready_queue s" "zombie_list w = c"
    "blocked_list w = (if xs = [] then pnext (pcbs s p) else blocked_list s)"
    using cp by (simp_all add: w_def u_def pcb_upd_def zf pv0)
  have ww: "pcbs w x = pcbs s x" if "x \<noteq> p" "x \<noteq> pv" "x \<noteq> c" for x
    using that by (simp add: hw hu hz)
  have rw: "plist (pcbs w) (head (rq w)) rs"
    unfolding fw
  proof (rule plist_cong[OF r(2)])
    fix x assume "x \<in> set rs"
    then have "x \<noteq> p" "x \<noteq> pv" "x \<noteq> c" using pr pvn d(1) by auto
    then show "pnext (pcbs w x) = pnext (pcbs s x)" by (simp add: ww)
  qed
  note e = enqueue_spec[OF _ p0 pr rw, unfolded fw, OF r(1) r(3), folded s'_def]
  have ps: "pstat (pcbs s' x) = pstat (pcbs w x)" for x
    by (simp add: s'_def enqueue_pstat)
  have fin: "pcbs s' x = pcbs s x" if "x \<notin> set rs" "x \<noteq> p" "x \<noteq> pv" "x \<noteq> c" for x
    using that e(4)[of x] by (simp add: ww)
  have finc: "pcbs s' c = (pcbs s c)\<lparr>pstat := TERMINATED, pnext := zombie_list s\<rparr>"
    using e(4)[of c] cp d(1) pvn(2) by (simp add: hw hu hz)
  have finpv: "pnext (pcbs s' pv) = pnext (pcbs s p)" if "xs \<noteq> []"
    using e(4)[of pv] pvn that by (simp add: hw hu hz)
  have wake: "proc_exit_lists s = Some s'"
  proof -
    have "plist (pcbs z) (blocked_list s) (xs @ p # ys)"
      by (rule plist_cong[OF b(1)]) (use d in \<open>auto simp add: hz\<close>)
    moreover have "\<forall>x\<in>set xs. pid (pcbs z x) \<noteq> ppid (pcbs s c)" "pid (pcbs z p) = ppid (pcbs s c)"
      using b(2,3) cp by (simp_all add: hz)
    ultimately have "exit_wake_loop (ppid (pcbs s c)) 0 (blocked_list s) z = Some s'"
      unfolding s'_def w_def u_def pv_def by (rule exit_wake_loop_found)
    then show ?thesis using c
      by (simp add: proc_exit_lists_def Let_def zf hz z_def[symmetric])
  qed
  have "plist (pcbs s') c (c # zs)"
  proof -
    have "plist (pcbs s') (zombie_list s) zs"
    proof (rule plist_cong[OF z])
      fix x assume "x \<in> set zs"
      then have "x \<notin> set rs" "x \<noteq> p" "x \<noteq> pv" "x \<noteq> c" using pvn d by auto
      then show "pnext (pcbs s' x) = pnext (pcbs s x)" by (simp add: fin)
    qed
    then show ?thesis using c(2) by (simp add: finc)
  qed
  moreover have "plist (pcbs s') (blocked_list s') (xs @ ys)"
  proof (cases "xs = []")
    case True
    with b(1) have "plist (pcbs s) (pnext (pcbs s p)) ys" by simp
    then have "plist (pcbs s') (pnext (pcbs s p)) ys"
    proof (rule plist_cong)
      fix x assume "x \<in> set ys"
      then have "x \<notin> set rs" "x \<noteq> p" "x \<noteq> pv" "x \<noteq> c" using pvn d dl by auto
      then show "pnext (pcbs s' x) = pnext (pcbs s x)" by (simp add: fin)
    qed
    then show ?thesis using True by (simp add: e(6) fw)
  next
    case False
    have "plist (pcbs s') (blocked_list s) (xs @ ys)"
    proof (rule plist_unlink[OF b(1) False])
      show "pnext (pcbs s' (last xs)) = pnext (pcbs s p)"
        using False by (simp add: pvl finpv)
      fix x assume "x \<in> set xs \<union> set ys" "x \<noteq> last xs"
      then have "x \<notin> set rs" "x \<noteq> p" "x \<noteq> pv" "x \<noteq> c" using False pvl d dl by auto
      then show "pnext (pcbs s' x) = pnext (pcbs s x)" by (simp add: fin)
    qed
    then show ?thesis using False by (simp add: e(6) fw)
  qed
  moreover have "pstat (pcbs s' p) = READY" by (simp add: ps hw)
  moreover have "pstat (pcbs s' c) = TERMINATED" by (simp add: finc)
  ultimately show ?thesis using wake e(1,2,3) by (simp add: e(7) fw)
qed

text \<open>
  Claim C4.  The running process \<open>c\<close> has a parent pid that is not 0, and \<open>p\<close> is the PCB with
  that pid on the blocked list \<open>xs @ p # ys\<close>; the ready queue holds \<open>rs\<close>, the zombie list
  \<open>zs\<close>, and \<open>c\<close> is on none of the three lists, which share no PCB.  Then \<open>proc_exit\<close>
  does not return: it calls \<open>schedule\<close>, and the state \<open>s'\<close> it calls it in is one where \<open>c\<close> is
  \<open>TERMINATED\<close> and heads the zombie list \<open>c # zs\<close>, the blocked list is \<open>xs @ ys\<close>, and \<open>p\<close> is
  \<open>READY\<close> and last on the ready queue \<open>rs @ [p]\<close>.  The wake-up runs after the insertion:
  \<open>s'\<close> is what the search of the blocked list makes of the state \<open>exit_push_zombie\<close>, where \<open>c\<close>
  already heads the zombie list and \<open>p\<close> is still blocked.
\<close>

theorem proc_exit_wakes_parent:
  assumes c: "c = current_proc s" "c \<noteq> 0" "ppid (pcbs s c) \<noteq> 0"
    and b: "plist (pcbs s) (blocked_list s) (xs @ p # ys)" "pid (pcbs s p) = ppid (pcbs s c)"
      "\<forall>x\<in>set xs. pid (pcbs s x) \<noteq> ppid (pcbs s c)"
    and r: "ready_queue s \<noteq> 0" "plist (pcbs s) (head (rq s)) rs"
      "tail (rq s) = (if rs = [] then 0 else last rs)"
    and z: "plist (pcbs s) (zombie_list s) zs"
    and d: "c \<notin> set (xs @ p # ys) \<union> set rs \<union> set zs" "set rs \<inter> set (xs @ p # ys) = {}"
      "set zs \<inter> set (xs @ p # ys) = {}" "set zs \<inter> set rs = {}"
  shows "\<exists>s'. proc_exit sw s = Scheduled s' (schedule sw s') \<and>
           zombie_list s' = c \<and> pstat (pcbs s' c) = TERMINATED \<and>
           plist (pcbs s') (zombie_list s') (c # zs) \<and>
           plist (pcbs s') (blocked_list s') (xs @ ys) \<and> pstat (pcbs s' p) = READY \<and>
           plist (pcbs s') (head (rq s')) (rs @ [p]) \<and> tail (rq s') = p \<and>
           count (rq s') = count (rq s) + 1 \<and>
           (let z = exit_push_zombie (intr_off s) in
              zombie_list z = c \<and> pstat (pcbs z c) = TERMINATED \<and>
              blocked_list z = blocked_list s \<and> pstat (pcbs z p) = pstat (pcbs s p) \<and>
              rq z = rq s \<and>
              exit_wake_loop (ppid (pcbs s c)) 0 (blocked_list z) z = Some s')"
proof -
  let ?t = "intr_off s"
  note i = intr_off_frame[of s]
  have cp: "c \<noteq> p" using d(1) by auto
  from proc_exit_lists_spec[of c ?t xs p ys rs zs, unfolded i, OF c b r z d]
  obtain s' where s': "proc_exit_lists ?t = Some s'"
    and l: "zombie_list s' = c" "pstat (pcbs s' c) = TERMINATED"
      "plist (pcbs s') (zombie_list s') (c # zs)"
      "plist (pcbs s') (blocked_list s') (xs @ ys)" "pstat (pcbs s' p) = READY"
      "plist (pcbs s') (head (rq s')) (rs @ [p])" "tail (rq s') = p"
      "count (rq s') = count (rq s) + 1"
    by blast
  have e: "proc_exit sw s = Scheduled s' (schedule sw s')"
    using c s' by (simp add: proc_exit_def Let_def i)
  have o: "let z = exit_push_zombie ?t in
              zombie_list z = c \<and> pstat (pcbs z c) = TERMINATED \<and>
              blocked_list z = blocked_list s \<and> pstat (pcbs z p) = pstat (pcbs s p) \<and>
              rq z = rq s \<and>
              exit_wake_loop (ppid (pcbs s c)) 0 (blocked_list z) z = Some s'"
    using s' c cp by (simp add: Let_def proc_exit_lists_def exit_push_zombie_frame i)
  from e l o show ?thesis by blast
qed

lemma k_exit_facts:
  "current_proc k_exit = 0x80009000" "blocked_list k_exit = 0x80008000" "zombie_list k_exit = 0"
  "ready_queue k_exit = 0x80006000" "rq k_exit = \<lparr>head = 0x8000A000, tail = 0x8000A000, count = 1\<rparr>"
  "pcbs k_exit 0x80008000 = pcb_zero\<lparr>pid := 1, pstat := BLOCKED\<rparr>"
  "pcbs k_exit 0x80009000 = pcb_zero\<lparr>pid := 2, ppid := 1, pstat := RUNNING\<rparr>"
  "pcbs k_exit 0x8000A000 = pcb_zero\<lparr>pid := 3, ppid := 1, pstat := READY\<rparr>"
  by (simp_all add: k_exit_def k_boot_def)

theorem proc_exit_wakes_parent_witness:
  "\<exists>s'. proc_exit sw_never k_exit = Scheduled s' (schedule sw_never s') \<and>
        zombie_list s' = 0x80009000 \<and> pstat (pcbs s' 0x80009000) = TERMINATED \<and>
        blocked_list s' = 0 \<and> pstat (pcbs s' 0x80008000) = READY \<and>
        plist (pcbs s') (head (rq s')) [0x8000A000, 0x80008000] \<and> tail (rq s') = 0x80008000 \<and>
        count (rq s') = 2"
  using proc_exit_wakes_parent[where s = k_exit and c = "0x80009000" and p = "0x80008000"
      and xs = "[]" and ys = "[]" and rs = "[0x8000A000]" and zs = "[]" and sw = sw_never]
  by (simp add: k_exit_facts pcb_zero_def) blast

end
